theory Spec2Isabelle
  imports Main "HOL-Library.Char_ord" "HOL-Library.List_Lexorder" "HOL-Library.Sublist"
begin

text \<open>
  A model of \<open>standalone_lead_email_finder.py\<close>: the domain normalizer \<open>sanitize_url\<close>,
  the search client \<open>SearXNGClient.search\<close> with its wrapper
  \<open>search_web_standalone_text\<close>, the candidate extractor \<open>extract_emails_from_text\<close>, the
  candidate filter \<open>filter_blacklisted_emails\<close> and the orchestrator
  \<open>find_emails_logic\<close>. Functions keep their names and the order of their branches. What
  the code does besides computing its result (logging, the pause between two pages) is
  left out. The network is a parameter: a function that gives the outcome of each
  request. An exception is a value: \<open>None\<close> where the code catches it at once, \<open>Inl\<close> of
  a sum where it leaves the function.
\<close>

section \<open>Python strings\<close>

text \<open>
  A Python \<open>str\<close> is modelled as a \<open>string\<close> (a list of 8-bit characters); the model is
  exact on ASCII text. Characters above 127 are carried along unchanged: they have no
  case, are no digits and no whitespace. Strings are compared as Python compares them,
  position by position on character codes (\<open>Char_ord\<close>, \<open>List_Lexorder\<close>).
\<close>

definition is_upper :: "char \<Rightarrow> bool" where
  "is_upper c \<longleftrightarrow> CHR ''A'' \<le> c \<and> c \<le> CHR ''Z''"

definition is_lower :: "char \<Rightarrow> bool" where
  "is_lower c \<longleftrightarrow> CHR ''a'' \<le> c \<and> c \<le> CHR ''z''"

definition is_digit :: "char \<Rightarrow> bool" where
  "is_digit c \<longleftrightarrow> CHR ''0'' \<le> c \<and> c \<le> CHR ''9''"

definition is_alpha :: "char \<Rightarrow> bool" where
  "is_alpha c \<longleftrightarrow> is_upper c \<or> is_lower c"

text \<open>\<open>str.isspace\<close> on ASCII: tab, LF, VT, FF, CR, the separators 0x1C..0x1F, space.\<close>

definition is_space :: "char \<Rightarrow> bool" where
  "is_space c \<longleftrightarrow> c \<in> set [CHR 0x09, CHR 0x0A, CHR 0x0B, CHR 0x0C, CHR 0x0D,
                             CHR 0x1C, CHR 0x1D, CHR 0x1E, CHR 0x1F, CHR 0x20]"

definition lower_char :: "char \<Rightarrow> char" where
  "lower_char c = (if is_upper c then char_of (of_char c + (32 :: nat)) else c)"

text \<open>\<open>s.lower()\<close>\<close>

definition py_lower :: "string \<Rightarrow> string" where
  "py_lower s = map lower_char s"

text \<open>\<open>s.startswith(p)\<close>\<close>

definition startswith :: "string \<Rightarrow> string \<Rightarrow> bool" where
  "startswith s p \<longleftrightarrow> prefix p s"

text \<open>\<open>s.strip()\<close> and \<open>s.rstrip('/')\<close>\<close>

definition py_strip :: "string \<Rightarrow> string" where
  "py_strip s = rev (dropWhile is_space (rev (dropWhile is_space s)))"

definition rstrip_char :: "char \<Rightarrow> string \<Rightarrow> string" where
  "rstrip_char ch s = rev (dropWhile (\<lambda>c. c = ch) (rev s))"

text \<open>\<open>s.split()\<close>: the maximal runs of non-whitespace characters, in order.\<close>

function py_split_ws :: "string \<Rightarrow> string list" where
  "py_split_ws s =
     (case dropWhile is_space s of
        [] \<Rightarrow> []
      | c # cs \<Rightarrow> (c # takeWhile (\<lambda>x. \<not> is_space x) cs)
                  # py_split_ws (dropWhile (\<lambda>x. \<not> is_space x) cs))"
  by pat_completeness auto
termination
proof (relation "measure length")
  show "wf (measure length)" by simp
next
  fix s :: string and c cs
  assume "dropWhile is_space s = c # cs"
  then have "length (c # cs) \<le> length s"
    by (metis length_dropWhile_le)
  moreover have "length (dropWhile (\<lambda>x. \<not> is_space x) cs) \<le> length cs"
    by (rule length_dropWhile_le)
  ultimately show "(dropWhile (\<lambda>x. \<not> is_space x) cs, s) \<in> measure length"
    by simp
qed

declare py_split_ws.simps [simp del]

text \<open>\<open>s.split(sep)\<close> for a one-character separator: never the empty list.\<close>

fun split_on :: "char \<Rightarrow> string \<Rightarrow> string list" where
  "split_on sep [] = [[]]"
| "split_on sep (c # cs) =
     (if c = sep then [] # split_on sep cs
      else (case split_on sep cs of
              w # ws \<Rightarrow> (c # w) # ws
            | [] \<Rightarrow> [[c]]))"

text \<open>\<open>s.split(sep, 1)\<close>: at most one split, at the first separator.\<close>

definition split_once :: "char \<Rightarrow> string \<Rightarrow> string list" where
  "split_once sep s =
     (if sep \<in> set s
      then [takeWhile (\<lambda>c. c \<noteq> sep) s, drop 1 (dropWhile (\<lambda>c. c \<noteq> sep) s)]
      else [s])"

text \<open>\<open>s.replace(old, '')\<close> for a non-empty \<open>old\<close>: every occurrence, left to right,
  without overlap.\<close>

function py_remove :: "string \<Rightarrow> string \<Rightarrow> string" where
  "py_remove old [] = []"
| "py_remove old (c # cs) =
     (if old \<noteq> [] \<and> prefix old (c # cs)
      then py_remove old (drop (length old) (c # cs))
      else c # py_remove old cs)"
  by pat_completeness auto
termination
  by (relation "measure (\<lambda>(old, s). length s)") auto

section \<open>Configuration constants\<close>

definition BLACKLISTED_DOMAINS :: "string list" where
  "BLACKLISTED_DOMAINS =
    [''email-format.com'', ''rocketreach.co'', ''hunter.io'', ''clearbit.com'', ''apollo.io'',
     ''emailhippo.com'', ''mailcheck.ai'', ''verify-email.org'', ''email-checker.net'',
     ''findemails.com'', ''findthat.email'', ''skymem.info'', ''anymail.com'', ''snov.io'',
     ''thatsthem.com'', ''emailfinder.io'', ''aol.com'', ''gmail.com'', ''googlemail.com'',
     ''hotmail.com'', ''msn.com'', ''live.com'', ''yahoo.com'', ''outlook.com'',
     ''gmx.com'', ''mail.com'', ''example.com'', ''wix.com'', ''squarespace.com'', ''godaddy.com'',
     ''protobuf.com'', ''zoho.com'', ''yandex.com'', ''protonmail.com'', ''github.com'',
     ''icloud.com'', ''privaterelay.appleid.com'', ''linkedin.com'', ''facebook.com'', ''twitter.com'',
     ''instagram.com'', ''support.com'', ''service.com'', ''info.com'', ''mail.com'',
     ''.info'', ''.xyz'', ''.online'', ''.club'', ''.site'', ''.live'']"

definition PAGES_PER_QUERY :: nat where
  "PAGES_PER_QUERY = 2"

section \<open>Domain normalizer\<close>

text \<open>
  \<open>urlparse(url).netloc\<close> of the standard library (\<open>urllib.parse.urlsplit\<close>), for what
  \<open>sanitize_url\<close> reads of it: tab, CR and LF are removed; a leading scheme (a letter,
  then letters, digits, \<open>+\<close>, \<open>-\<close>, \<open>.\<close>, up to the first colon) is split off; if the rest
  starts with \<open>//\<close>, the authority runs up to the first \<open>/\<close>, \<open>?\<close> or \<open>#\<close>. An authority
  with one square bracket but not the other raises \<open>ValueError\<close> (\<open>None\<close> here). The
  library also strips leading control characters and spaces, which changes nothing
  here: \<open>sanitize_url\<close> passes a URL that starts with \<open>h\<close> or \<open>/\<close>. Later versions of the
  library also validate the host between the brackets and raise for more inputs; there
  \<open>sanitize_url\<close> returns \<open>None\<close>, so every statement about a successful normalization
  covers them.
\<close>

definition is_scheme_char :: "char \<Rightarrow> bool" where
  "is_scheme_char c \<longleftrightarrow> is_alpha c \<or> is_digit c \<or> c \<in> set ''+-.''"

definition urlparse_netloc :: "string \<Rightarrow> string option" where
  "urlparse_netloc url0 =
     (let url = filter (\<lambda>c. c \<notin> set [CHR 0x09, CHR 0x0D, CHR 0x0A]) url0;
          pre = takeWhile (\<lambda>c. c \<noteq> CHR '':'') url;
          has_scheme = (CHR '':'' \<in> set url \<and>
                        (case pre of [] \<Rightarrow> False
                         | c # _ \<Rightarrow> is_alpha c \<and> list_all is_scheme_char pre));
          url1 = (if has_scheme then drop (length pre + 1) url else url)
      in if take 2 url1 = ''//'' then
           (let netloc = takeWhile (\<lambda>c. c \<notin> set ''/?#'') (drop 2 url1)
            in if (CHR ''['' \<in> set netloc) \<noteq> (CHR '']'' \<in> set netloc) then None
               else Some netloc)
         else Some [])"

text \<open>\<open>re.sub(r':\d+$', '', domain)\<close>: a colon followed by digits up to the end of the
  string is removed, once (the authority holds no line feed, so \<open>$\<close> is the end).\<close>

definition remove_port :: "string \<Rightarrow> string" where
  "remove_port domain =
     (case dropWhile is_digit (rev domain) of
        c # front \<Rightarrow>
          if c = CHR '':'' \<and> takeWhile is_digit (rev domain) \<noteq> [] then rev front else domain
      | [] \<Rightarrow> domain)"

text \<open>Any exception of the parse is caught and mapped to \<open>None\<close>.\<close>

definition sanitize_url :: "string \<Rightarrow> string option" where
  "sanitize_url url =
     (if py_strip url = [] then None
      else
        let url1 = (if startswith url ''http://'' \<or> startswith url ''https://''
                       \<or> startswith url ''//''
                    then url else ''https://'' @ url)
        in case urlparse_netloc url1 of
             None \<Rightarrow> None
           | Some domain \<Rightarrow>
               if domain = [] then None
               else
                 let domain1 = (if startswith (py_lower domain) ''www.''
                                then drop 4 domain else domain);
                     domain2 = remove_port domain1
                 in if CHR ''.'' \<notin> set domain2
                       \<or> length (last (split_on CHR ''.'' domain2)) < 2
                    then None
                    else Some (py_lower domain2))"

section \<open>Search client\<close>

text \<open>
  What one request to the backend comes to. A response that parses is a \<open>results\<close> list
  (an absent key is the empty list); each entry is a JSON object whose \<open>title\<close> and
  \<open>content\<close> are \<open>None\<close> when absent or falsy, or it is not an object at all, and then
  \<open>result.get\<close> raises inside the loop over the page. \<open>UnexpectedError\<close> is every other
  exception (also a document that is no object).
\<close>

datatype hit = Hit "string option" "string option" | NotAnObject

datatype response =
    Timeout
  | RequestException
  | JSONDecodeError
  | UnexpectedError
  | Results "hit list"

text \<open>The backend, by base URL, query and page number.\<close>

type_synonym backend = "string \<Rightarrow> string \<Rightarrow> nat \<Rightarrow> response"

definition or_empty :: "string option \<Rightarrow> string" where
  "or_empty v = (case v of None \<Rightarrow> [] | Some s \<Rightarrow> s)"

definition hit_text :: "string option \<Rightarrow> string option \<Rightarrow> string" where
  "hit_text title content = or_empty title @ [CHR 0x0A] @ or_empty content @ [CHR 0x0A, CHR 0x0A]"

text \<open>The loop over one page: the text so far, and whether the loop ran to its end.\<close>

fun add_hits :: "hit list \<Rightarrow> string \<Rightarrow> string \<times> bool" where
  "add_hits [] all_results_text = (all_results_text, True)"
| "add_hits (Hit title content # rest) all_results_text =
     add_hits rest (all_results_text @ hit_text title content)"
| "add_hits (NotAnObject # rest) all_results_text = (all_results_text, False)"

text \<open>The \<open>while page <= max_pages\<close> loop of \<open>SearXNGClient.search\<close>: every \<open>except\<close>
  branch and the empty page leave the loop with the text aggregated so far.\<close>

function search_loop :: "(nat \<Rightarrow> response) \<Rightarrow> nat \<Rightarrow> nat \<Rightarrow> string \<Rightarrow> string" where
  "search_loop get max_pages page all_results_text =
     (if page \<le> max_pages then
        (case get page of
           Results page_results \<Rightarrow>
             if page_results \<noteq> [] then
               (case add_hits page_results all_results_text of
                  (txt, True) \<Rightarrow> search_loop get max_pages (page + 1) txt
                | (txt, False) \<Rightarrow> txt)
             else all_results_text
         | _ \<Rightarrow> all_results_text)
      else all_results_text)"
  by pat_completeness auto
termination
  by (relation "measure (\<lambda>(get, max_pages, page, txt). max_pages + 1 - page)") auto

declare search_loop.simps [simp del]

text \<open>\<open>SearXNGClient.__init__\<close>: the client is its base URL, or \<open>ValueError\<close>.\<close>

datatype py_error = ValueError | KeyError | IndexError

definition SearXNGClient :: "string \<Rightarrow> py_error + string" where
  "SearXNGClient base_url =
     (if base_url = [] \<or> \<not> (startswith base_url ''http://'' \<or> startswith base_url ''https://'')
      then Inl ValueError
      else Inr (rstrip_char CHR ''/'' base_url))"

definition search :: "backend \<Rightarrow> string \<Rightarrow> string \<Rightarrow> nat \<Rightarrow> string" where
  "search be base_url query max_pages = search_loop (be base_url query) max_pages 1 []"

definition search_web_standalone_text :: "backend \<Rightarrow> string \<Rightarrow> string \<Rightarrow> nat \<Rightarrow> string" where
  "search_web_standalone_text be query searx_base_url pages =
     (if searx_base_url = [] then []
      else case SearXNGClient searx_base_url of
             Inl _ \<Rightarrow> []
           | Inr client \<Rightarrow> search be client query pages)"

section \<open>Candidate extractor\<close>

text \<open>
  \<open>EMAIL_REGEX\<close> is \<open>[a-zA-Z0-9._%+-]+@[a-zA-Z0-9.-]+\.[a-zA-Z]{2,}\<close>. A match at the
  start of \<open>s\<close>, as the backtracking matcher finds it: the longest run of local-part
  characters, an \<open>@\<close>, then within the longest run of domain characters the last dot
  that at least two letters follow, and all the letters after it.
\<close>

definition is_local_char :: "char \<Rightarrow> bool" where
  "is_local_char c \<longleftrightarrow> is_alpha c \<or> is_digit c \<or> c \<in> set ''._%+-''"

definition is_domain_char :: "char \<Rightarrow> bool" where
  "is_domain_char c \<longleftrightarrow> is_alpha c \<or> is_digit c \<or> c \<in> set ''.-''"

text \<open>The length of the match of \<open>[a-zA-Z0-9.-]+\.[a-zA-Z]{2,}\<close> inside a run of domain
  characters: the positions of the dot are tried from the right.\<close>

definition match_domain :: "string \<Rightarrow> nat option" where
  "match_domain run =
     (case filter (\<lambda>j. run ! j = CHR ''.''
                        \<and> 2 \<le> length (takeWhile is_alpha (drop (j + 1) run)))
                  (rev [1..<length run]) of
        [] \<Rightarrow> None
      | j # _ \<Rightarrow> Some (j + 1 + length (takeWhile is_alpha (drop (j + 1) run))))"

definition match_email :: "string \<Rightarrow> string option" where
  "match_email s =
     (let local_part = takeWhile is_local_char s
      in if local_part = [] then None
         else (case dropWhile is_local_char s of
                 [] \<Rightarrow> None
               | c # after \<Rightarrow>
                   if c \<noteq> CHR ''@'' then None
                   else (case match_domain (takeWhile is_domain_char after) of
                           None \<Rightarrow> None
                         | Some k \<Rightarrow> Some (local_part @ CHR ''@'' # take k after))))"

lemma match_email_nonempty: "match_email s = Some m \<Longrightarrow> m \<noteq> []"
  by (auto simp: match_email_def Let_def split: if_splits list.splits option.splits)

text \<open>\<open>EMAIL_REGEX.findall(text)\<close>: the matches from left to right, each search starting
  where the last match ended.\<close>

function findall :: "string \<Rightarrow> string list" where
  "findall [] = []"
| "findall (c # cs) =
     (case match_email (c # cs) of
        Some m \<Rightarrow> m # findall (drop (length m) (c # cs))
      | None \<Rightarrow> findall cs)"
  by pat_completeness auto
termination
proof (relation "measure length")
  show "wf (measure length)" by simp
next
  fix c :: char and cs m
  assume "match_email (c # cs) = Some m"
  then have "m \<noteq> []" by (rule match_email_nonempty)
  then have "0 < length m" by simp
  then show "(drop (length m) (c # cs), c # cs) \<in> measure length" by simp
next
  fix c :: char and cs
  show "(cs, c # cs) \<in> measure length" by simp
qed

text \<open>The set comprehension, as a list without repetitions.\<close>

definition extract_emails_from_text :: "string \<Rightarrow> string list" where
  "extract_emails_from_text txt =
     (if txt = [] then [] else remdups (map py_lower (findall txt)))"

section \<open>Candidate filter\<close>

text \<open>
  The body of the loop of \<open>filter_blacklisted_emails\<close>, one candidate at a time.
  \<open>email.split('@', 1)\<close> is unpacked into two names; with no \<open>@\<close> the split has one
  element, the unpacking raises \<open>ValueError\<close>, and the handler skips the candidate
  with a warning (\<open>Malformed\<close>).
\<close>

datatype verdict = Keep | Blacklisted | NonTarget | Malformed

definition check_email :: "string option \<Rightarrow> string \<Rightarrow> verdict" where
  "check_email normalized_target_domain email =
     (case split_once CHR ''@'' email of
        [_, domain_part] \<Rightarrow>
          if domain_part \<in> set BLACKLISTED_DOMAINS then Blacklisted
          else if (case normalized_target_domain of
                     Some t \<Rightarrow> domain_part \<noteq> t
                   | None \<Rightarrow> False) then NonTarget
          else Keep
      | _ \<Rightarrow> Malformed)"

text \<open>\<open>target_domain.lower() if target_domain else None\<close>: the empty string is falsy.\<close>

definition normalize_target :: "string option \<Rightarrow> string option" where
  "normalize_target target_domain =
     (case target_domain of
        None \<Rightarrow> None
      | Some t \<Rightarrow> if t = [] then None else Some (py_lower t))"

text \<open>
  The candidate set is given as a list that enumerates it (the order in which the loop
  visits the set); \<open>sorted(list(set(valid_emails)))\<close> removes duplicates and sorts.
\<close>

definition filter_blacklisted_emails :: "string list \<Rightarrow> string option \<Rightarrow> string list" where
  "filter_blacklisted_emails emails target_domain =
     (let normalized_target_domain = normalize_target target_domain;
          valid_emails = filter (\<lambda>email. check_email normalized_target_domain email = Keep) emails
      in sort (remdups valid_emails))"

text \<open>The domain part the filter looks at: what follows the first \<open>@\<close>.\<close>

definition domain_part_of :: "string \<Rightarrow> string" where
  "domain_part_of email = drop 1 (dropWhile (\<lambda>c. c \<noteq> CHR ''@'') email)"

section \<open>Template formatting\<close>

text \<open>
  \<open>template.format(name=..., domain=..., search_name=...)\<close>. The template is read from
  left to right: \<open>{{\<close> and \<open>}}\<close> are the braces themselves; a single \<open>}\<close>, a \<open>{\<close> at the
  end, a \<open>{\<close> inside a field and a field that is not closed raise \<open>ValueError\<close>; the
  empty field \<open>{}\<close> is positional and raises \<open>IndexError\<close> (there are no positional
  arguments); a field that is a plain name is replaced by the keyword argument of that
  name, and raises \<open>KeyError\<close> when there is none. The first failure is the one raised.

  Fields that hold an attribute, an index, a conversion, a format specification, or
  that are a number, are outside this model: \<open>format_fields\<close> returns \<open>None\<close> at the
  first of them, and \<open>py_format\<close> then takes the outcome from its parameter, so that
  every statement below holds whatever the library does there.
\<close>

type_synonym format_args = "string \<times> string \<times> string"

type_synonym formatter = "string \<Rightarrow> format_args \<Rightarrow> py_error + string"

definition lookup_arg :: "format_args \<Rightarrow> string \<Rightarrow> string option" where
  "lookup_arg args key =
     (case args of (name, domain, search_name) \<Rightarrow>
        if key = ''name'' then Some name
        else if key = ''domain'' then Some domain
        else if key = ''search_name'' then Some search_name
        else None)"

definition emit :: "string \<Rightarrow> (py_error + string) option \<Rightarrow> (py_error + string) option" where
  "emit s r = (case r of Some (Inr out) \<Rightarrow> Some (Inr (s @ out)) | _ \<Rightarrow> r)"

definition in_field_name :: "char \<Rightarrow> bool" where
  "in_field_name c \<longleftrightarrow> c \<notin> set ''{}[:!''"

function format_fields :: "format_args \<Rightarrow> string \<Rightarrow> (py_error + string) option" where
  "format_fields args [] = Some (Inr [])"
| "format_fields args (c # cs) =
     (if c = CHR ''{'' then
        (case cs of
           [] \<Rightarrow> Some (Inl ValueError)
         | d # ds \<Rightarrow>
             if d = CHR ''{'' then emit ''{'' (format_fields args ds)
             else
               (let field_name = takeWhile in_field_name cs
                in case dropWhile in_field_name cs of
                     [] \<Rightarrow> Some (Inl ValueError)
                   | t # after \<Rightarrow>
                       if t = CHR ''{'' then Some (Inl ValueError)
                       else if t \<noteq> CHR ''}'' then None
                       else if field_name = [] then Some (Inl IndexError)
                       else if CHR ''.'' \<in> set field_name \<or> list_all is_digit field_name
                       then None
                       else (case lookup_arg args field_name of
                               None \<Rightarrow> Some (Inl KeyError)
                             | Some v \<Rightarrow> emit v (format_fields args after))))
      else if c = CHR ''}'' then
        (case cs of
           [] \<Rightarrow> Some (Inl ValueError)
         | d # ds \<Rightarrow>
             if d = CHR ''}'' then emit ''}'' (format_fields args ds)
             else Some (Inl ValueError))
      else emit [c] (format_fields args cs))"
  by pat_completeness auto
termination
proof (relation "measure (\<lambda>(args, s). length s)")
  show "wf (measure (\<lambda>(args, s). length s))" by simp
next
  fix args :: format_args and c :: char and cs field_name t after
  assume "dropWhile in_field_name cs = t # after"
  then have "length (t # after) \<le> length cs"
    by (metis length_dropWhile_le)
  then show "((args, after), args, c # cs) \<in> measure (\<lambda>(args, s). length s)"
    by simp
qed auto

definition py_format :: "formatter \<Rightarrow> string \<Rightarrow> format_args \<Rightarrow> py_error + string" where
  "py_format ext template args =
     (case format_fields args template of
        Some r \<Rightarrow> r
      | None \<Rightarrow> ext template args)"

section \<open>Pipeline orchestrator\<close>

text \<open>The truth value of an optional string: \<open>None\<close> and the empty string are falsy.\<close>

definition truthy :: "string option \<Rightarrow> bool" where
  "truthy v = (case v of None \<Rightarrow> False | Some s \<Rightarrow> s \<noteq> [])"

text \<open>Step 1 of \<open>find_emails_logic\<close>: the target domain and the search name.\<close>

definition determine_domain :: "string \<Rightarrow> string option \<times> string" where
  "determine_domain company_input =
     (if CHR ''.'' \<in> set company_input then
        (case sanitize_url company_input of
           None \<Rightarrow> (None, company_input)
         | Some sanitized \<Rightarrow>
             if sanitized = [] then (None, company_input)
             else
               (Some sanitized,
                if py_lower company_input \<noteq> sanitized
                   \<and> \<not> (startswith company_input ''http'' \<or> startswith company_input ''//'')
                then company_input
                else if CHR ''.'' \<in> set sanitized then hd (split_on CHR ''.'' sanitized)
                else sanitized))
      else (None, company_input))"

text \<open>Step 2: the templates chosen by what is known.\<close>

definition base_templates :: "string option \<Rightarrow> string option \<Rightarrow> string list" where
  \<open>base_templates ceo_name target_domain =
     (if truthy ceo_name \<and> truthy target_domain then
        [''"{name}" "{domain}" email'',
         ''"{name}" email address {domain}'',
         ''contact "{name}" {domain}'',
         ''"{domain}" email'',
         ''contact {domain}'']
      else if truthy ceo_name \<and> \<not> truthy target_domain then
        [''"{name}" "{search_name}" email'',
         ''"{name}" email address "{search_name}" company'',
         ''contact "{name}" "{search_name}"'',
         ''"{search_name}" email'']
      else if truthy target_domain \<and> \<not> truthy ceo_name then
        [''"{domain}" email address'',
         ''contact OR support email "{domain}"'',
         ''"{domain}" company contact'',
         ''site:{domain} email OR contact'']
      else
        [''"{search_name}" contact email'',
         ''"{search_name}" customer service email'',
         ''"{search_name}" company email address'',
         ''email address for "{search_name}"''])\<close>

text \<open>
  The permutation attempts, built as f-strings and appended to the templates. A part
  of \<open>split()\<close> is never empty, so \<open>fname[0]\<close> is its first character.
\<close>

definition quoted :: "string \<Rightarrow> string" where
  "quoted s = [CHR 0x22] @ s @ [CHR 0x22]"

definition permutation_templates :: "string option \<Rightarrow> string option \<Rightarrow> string list" where
  "permutation_templates ceo_name target_domain =
     (case ceo_name of
        None \<Rightarrow> []
      | Some n \<Rightarrow>
          if n = [] then []
          else
            (let name_parts = py_split_ws (py_lower n)
             in if 2 \<le> length name_parts then
                  (let fname = hd name_parts; lname = last name_parts
                   in case target_domain of
                        None \<Rightarrow> []
                      | Some d \<Rightarrow>
                          if d = [] then []
                          else
                            [quoted (take 1 fname @ lname @ ''@'' @ d),
                             quoted (fname @ ''.'' @ lname @ ''@'' @ d),
                             quoted (fname @ lname @ ''@'' @ d),
                             quoted (lname @ ''.'' @ fname @ ''@'' @ d),
                             quoted (fname @ ''@'' @ d)])
                else []))"

definition query_templates :: "string option \<Rightarrow> string option \<Rightarrow> string list" where
  "query_templates ceo_name target_domain =
     base_templates ceo_name target_domain @ permutation_templates ceo_name target_domain"

text \<open>The query of a template: formatted, then cleaned of empty quoted placeholders.\<close>

definition format_query ::
  "formatter \<Rightarrow> string option \<Rightarrow> string option \<Rightarrow> string \<Rightarrow> string \<Rightarrow> py_error + string" where
  \<open>format_query ext ceo_name target_domain search_name template =
     (case py_format ext template (or_empty ceo_name, or_empty target_domain, search_name) of
        Inl e \<Rightarrow> Inl e
      | Inr query \<Rightarrow> Inr (py_remove '' ""'' (py_remove ''"" '' query)))\<close>

text \<open>
  The loop over the templates. The \<open>i\<close>-th query (from 0) is answered by \<open>net i\<close>; an
  exception of \<open>format\<close> is not caught and leaves the function. The candidate set is a
  list without repetitions.
\<close>

fun run_queries ::
  "formatter \<Rightarrow> (nat \<Rightarrow> backend) \<Rightarrow> string option \<Rightarrow> string option \<Rightarrow> string \<Rightarrow> string
     \<Rightarrow> nat \<Rightarrow> string list \<Rightarrow> string list \<Rightarrow> py_error + string list" where
  "run_queries ext net ceo_name target_domain search_name searx_url i [] all_found = Inr all_found"
| "run_queries ext net ceo_name target_domain search_name searx_url i (template # rest) all_found =
     (case format_query ext ceo_name target_domain search_name template of
        Inl e \<Rightarrow> Inl e
      | Inr query \<Rightarrow>
          (let aggregated_text = search_web_standalone_text (net i) query searx_url PAGES_PER_QUERY;
               emails_from_query =
                 (if aggregated_text \<noteq> [] then extract_emails_from_text aggregated_text else [])
           in run_queries ext net ceo_name target_domain search_name searx_url (i + 1) rest
                (List.union emails_from_query all_found)))"

text \<open>The result dictionary: \<open>query_details\<close>, \<open>found_emails\<close> and \<open>error\<close>.\<close>

record query_details =
  search_name :: string
  target_domain :: "string option"

record result_dict =
  details :: query_details
  found_emails :: "string list"
  error :: "string option"

definition find_emails_logic ::
  "formatter \<Rightarrow> (nat \<Rightarrow> backend) \<Rightarrow> string \<Rightarrow> string option \<Rightarrow> string \<Rightarrow> py_error + result_dict" where
  "find_emails_logic ext net company_input ceo_name searx_url =
     (case determine_domain company_input of
        (domain, name) \<Rightarrow>
          (case run_queries ext net ceo_name domain name searx_url 0
                  (query_templates ceo_name domain) [] of
             Inl e \<Rightarrow> Inl e
           | Inr all_found_emails_set \<Rightarrow>
               Inr \<lparr>details = \<lparr>search_name = name, target_domain = domain\<rparr>,
                    found_emails =
                      (if all_found_emails_set = [] then []
                       else filter_blacklisted_emails all_found_emails_set domain),
                    error = None\<rparr>))"

section \<open>Vocabulary of the properties\<close>

text \<open>The authority that \<open>sanitize_url\<close> reads from its input: the \<open>netloc\<close> of the URL
  after \<open>https://\<close> has been put in front of an input without scheme.\<close>

definition authority :: "string \<Rightarrow> string option" where
  "authority url =
     urlparse_netloc
       (if startswith url ''http://'' \<or> startswith url ''https://'' \<or> startswith url ''//''
        then url else ''https://'' @ url)"

text \<open>A string ends with a port: a colon and at least one digit, up to its end.\<close>

definition ends_with_port :: "string \<Rightarrow> bool" where
  "ends_with_port s =
     (case dropWhile is_digit (rev s) of
        [] \<Rightarrow> False
      | c # _ \<Rightarrow> c = CHR '':'' \<and> takeWhile is_digit (rev s) \<noteq> [])"

text \<open>
  A formatter for the templates outside the model of \<open>format\<close>, and a backend, for the
  concrete runs below: the backend answers page 1 of every query with two hits and
  times out on every other page.
\<close>

definition sample_formatter :: formatter where
  "sample_formatter template args = Inl ValueError"

definition sample_backend :: "nat \<Rightarrow> backend" where
  "sample_backend i base_url query page =
     (if page = 1
      then Results [Hit (Some ''Jane Doe'') (Some ''Contact: jane.doe@ACME.com or x@hunter.io''),
                    Hit None (Some ''support@acme.com'')]
      else Timeout)"

text \<open>
  Pages of the backend, in the words of the specification and not through the functions
  of the client: the text of a hit is its title, a line feed, its content and two line
  feeds, a missing title or content being the empty string; the text of a page is the
  text of its hits, in order. A page is fetched in full when its response is a
  non-empty list of JSON objects. A fetch fails before any hit is read with a timeout,
  a transport-level error, a response that is not JSON, or any other exception. A page
  also fails when an entry of its results is not an object: the hits before that entry
  have been read by then.
\<close>

fun is_hit :: "hit \<Rightarrow> bool" where
  "is_hit (Hit title content) = True"
| "is_hit NotAnObject = False"

fun rendered :: "hit \<Rightarrow> string" where
  "rendered (Hit title content) =
     (case title of None \<Rightarrow> [] | Some s \<Rightarrow> s) @ [CHR 0x0A]
     @ (case content of None \<Rightarrow> [] | Some s \<Rightarrow> s) @ [CHR 0x0A, CHR 0x0A]"
| "rendered NotAnObject = []"

definition page_text :: "response \<Rightarrow> string" where
  "page_text r = (case r of Results hits \<Rightarrow> concat (map rendered hits) | _ \<Rightarrow> [])"

definition page_ok :: "response \<Rightarrow> bool" where
  "page_ok r = (case r of Results hits \<Rightarrow> hits \<noteq> [] \<and> list_all is_hit hits | _ \<Rightarrow> False)"

definition fetch_failed :: "response \<Rightarrow> bool" where
  "fetch_failed r \<longleftrightarrow>
     r = Timeout \<or> r = RequestException \<or> r = JSONDecodeError \<or> r = UnexpectedError"

definition page_failed :: "response \<Rightarrow> bool" where
  "page_failed r = (case r of Results hits \<Rightarrow> \<not> list_all is_hit hits | _ \<Rightarrow> True)"

text \<open>The text of the hits of a page that come before its first entry that is no object.\<close>

definition text_before_failure :: "response \<Rightarrow> string" where
  "text_before_failure r =
     (case r of
        Results hits \<Rightarrow> concat (map rendered (takeWhile is_hit hits))
      | _ \<Rightarrow> [])"

text \<open>A backend whose second page holds a hit, then an entry that is no object, then
  another hit.\<close>

definition partial_backend :: backend where
  "partial_backend base_url query page =
     (if page = 1 then Results [Hit (Some ''A'') (Some ''a@acme.com'')]
      else Results [Hit (Some ''B'') None, NotAnObject, Hit (Some ''C'') None])"

section \<open>Lemmas on strings\<close>

lemma is_upper_code: "is_upper c \<longleftrightarrow> 65 \<le> (of_char c :: nat) \<and> (of_char c :: nat) \<le> 90"
  by (simp add: is_upper_def less_eq_char_def)

lemma is_lower_code: "is_lower c \<longleftrightarrow> 97 \<le> (of_char c :: nat) \<and> (of_char c :: nat) \<le> 122"
  by (simp add: is_lower_def less_eq_char_def)

lemma is_digit_code: "is_digit c \<longleftrightarrow> 48 \<le> (of_char c :: nat) \<and> (of_char c :: nat) \<le> 57"
  by (simp add: is_digit_def less_eq_char_def)

lemma of_char_lower:
  "(of_char (lower_char c) :: nat) = (if is_upper c then of_char c + 32 else of_char c)"
  by (auto simp: lower_char_def is_upper_code)

lemma lower_char_idem: "lower_char (lower_char c) = lower_char c"
  by (auto simp: lower_char_def is_upper_code)

lemma lower_char_eq_iff:
  assumes "\<not> is_upper k" and "\<not> is_lower k"
  shows "lower_char c = k \<longleftrightarrow> c = k"
proof (cases "is_upper c")
  case True
  then have "is_lower (lower_char c)"
    by (simp add: is_lower_code of_char_lower) (simp add: is_upper_code)
  with True assms show ?thesis by auto
next
  case False
  then show ?thesis by (simp add: lower_char_def)
qed

lemma lower_char_dot [simp]: "lower_char c = CHR ''.'' \<longleftrightarrow> c = CHR ''.''"
  by (rule lower_char_eq_iff) (simp_all add: is_upper_def is_lower_def)

lemma lower_char_at [simp]: "lower_char c = CHR ''@'' \<longleftrightarrow> c = CHR ''@''"
  by (rule lower_char_eq_iff) (simp_all add: is_upper_def is_lower_def)

lemma lower_char_colon [simp]: "lower_char c = CHR '':'' \<longleftrightarrow> c = CHR '':''"
  by (rule lower_char_eq_iff) (simp_all add: is_upper_def is_lower_def)

lemma lower_char_slash [simp]: "lower_char c = CHR ''/'' \<longleftrightarrow> c = CHR ''/''"
  by (rule lower_char_eq_iff) (simp_all add: is_upper_def is_lower_def)

lemma is_digit_lower_char [simp]: "is_digit (lower_char c) \<longleftrightarrow> is_digit c"
  by (auto simp: is_digit_code of_char_lower is_upper_code)

lemma py_lower_idem: "py_lower (py_lower s) = py_lower s"
  by (simp add: py_lower_def lower_char_idem)

lemma mem_py_lower_iff:
  assumes "\<And>c. lower_char c = k \<longleftrightarrow> c = k"
  shows "k \<in> set (py_lower s) \<longleftrightarrow> k \<in> set s"
proof -
  have "k \<in> lower_char ` set s \<longleftrightarrow> k \<in> set s"
    by (metis assms image_iff)
  then show ?thesis by (simp add: py_lower_def)
qed

lemma split_on_nonempty [simp]: "split_on sep s \<noteq> []"
  by (induction s) (auto split: list.splits)

lemma hd_split_on: "hd (split_on sep s) = takeWhile (\<lambda>c. c \<noteq> sep) s"
  by (induction s) (auto split: list.splits)

lemma first_label:
  "(if sep \<in> set s then hd (split_on sep s) else s) = takeWhile (\<lambda>c. c \<noteq> sep) s"
proof (cases "sep \<in> set s")
  case True
  then show ?thesis by (simp add: hd_split_on)
next
  case False
  then have "takeWhile (\<lambda>c. c \<noteq> sep) s = s" by auto
  with False show ?thesis by (simp only: if_False)
qed

lemma split_on_py_lower:
  "split_on CHR ''.'' (py_lower s) = map py_lower (split_on CHR ''.'' s)"
  by (induction s) (auto simp: py_lower_def split: list.splits)

lemma last_split_on_py_lower:
  "length (last (split_on CHR ''.'' (py_lower s))) = length (last (split_on CHR ''.'' s))"
  by (simp add: split_on_py_lower last_map) (simp add: py_lower_def)

lemma startswith_py_lower_prefix:
  assumes "prefix a b" and "startswith (py_lower a) p"
  shows "startswith (py_lower b) p"
proof -
  from assms(1) have "prefix (py_lower a) (py_lower b)"
    by (simp add: py_lower_def map_mono_prefix)
  with assms(2) show ?thesis
    unfolding startswith_def using prefix_order.trans by blast
qed

lemma startswith_drop:
  assumes "startswith s p" and "startswith (drop k s) q" and "k = length p"
  shows "startswith s (p @ q)"
  using assms unfolding startswith_def by (auto simp: prefix_def)

lemma take_takeWhile_prefix:
  assumes "k \<le> length (takeWhile P xs)"
  shows "take k xs = take k (takeWhile P xs)"
proof -
  have "take k xs = take k (takeWhile P xs @ dropWhile P xs)" by simp
  also have "\<dots> = take k (takeWhile P xs)"
    using assms by (simp del: takeWhile_dropWhile_id)
  finally show ?thesis .
qed

lemma run_then_stop:
  assumes "\<forall>x\<in>set xs. P x" and "\<not> P c"
  shows "takeWhile P (xs @ c # rest) = xs" and "dropWhile P (xs @ c # rest) = c # rest"
  using assms by (induction xs) auto

lemma py_split_ws_parts:
  "w \<in> set (py_split_ws s) \<Longrightarrow> w \<noteq> [] \<and> set w \<subseteq> set s \<and> (\<forall>c\<in>set w. \<not> is_space c)"
proof (induction s rule: py_split_ws.induct)
  case (1 s)
  show ?case
  proof (cases "dropWhile is_space s")
    case Nil
    with "1.prems" show ?thesis by (simp add: py_split_ws.simps [of s])
  next
    case (Cons c cs)
    have sub: "set (c # cs) \<subseteq> set s"
      by (metis Cons set_dropWhileD subsetI)
    have c: "\<not> is_space c"
      using Cons by (metis hd_dropWhile list.sel(1) list.distinct(1))
    from "1.prems" Cons have
      "w = c # takeWhile (\<lambda>x. \<not> is_space x) cs
        \<or> w \<in> set (py_split_ws (dropWhile (\<lambda>x. \<not> is_space x) cs))"
      by (simp add: py_split_ws.simps [of s])
    then show ?thesis
    proof
      assume w: "w = c # takeWhile (\<lambda>x. \<not> is_space x) cs"
      have "set (takeWhile (\<lambda>x. \<not> is_space x) cs) \<subseteq> set cs"
        by (auto dest: set_takeWhileD)
      then show ?thesis
        unfolding w using c sub by (auto dest: set_takeWhileD)
    next
      assume "w \<in> set (py_split_ws (dropWhile (\<lambda>x. \<not> is_space x) cs))"
      then have "w \<noteq> [] \<and> set w \<subseteq> set (dropWhile (\<lambda>x. \<not> is_space x) cs)
                 \<and> (\<forall>c\<in>set w. \<not> is_space c)"
        using "1.IH" Cons by blast
      moreover have "set (dropWhile (\<lambda>x. \<not> is_space x) cs) \<subseteq> set cs"
        by (auto dest: set_dropWhileD)
      ultimately show ?thesis using sub by auto
    qed
  qed
qed

lemma py_remove_absent:
  assumes "\<not> sublist old s"
  shows "py_remove old s = s"
  using assms
proof (induction s)
  case Nil
  then show ?case by simp
next
  case (Cons c cs)
  have "\<not> prefix old (c # cs)"
    using Cons.prems prefix_imp_sublist by blast
  moreover have "\<not> sublist old cs"
    using Cons.prems by (auto simp: sublist_Cons_right)
  ultimately show ?case using Cons.IH by simp
qed


section \<open>Lemmas on the domain normalizer\<close>

lemma digits_then_colon:
  assumes "list_all is_digit ds"
  shows "takeWhile is_digit (rev ds @ CHR '':'' # rest) = rev ds"
    and "dropWhile is_digit (rev ds @ CHR '':'' # rest) = CHR '':'' # rest"
proof -
  have nd: "\<not> is_digit CHR '':''" by (simp add: is_digit_def)
  have all: "\<forall>x\<in>set (rev ds). is_digit x"
    using assms by (simp add: list_all_iff)
  show "takeWhile is_digit (rev ds @ CHR '':'' # rest) = rev ds"
    by (rule run_then_stop(1) [OF all nd])
  show "dropWhile is_digit (rev ds @ CHR '':'' # rest) = CHR '':'' # rest"
    by (rule run_then_stop(2) [OF all nd])
qed

lemma ends_with_port_iff:
  "ends_with_port s \<longleftrightarrow>
     (\<exists>front ds. s = front @ CHR '':'' # ds \<and> ds \<noteq> [] \<and> list_all is_digit ds)"
proof
  assume "ends_with_port s"
  then obtain rest where d: "dropWhile is_digit (rev s) = CHR '':'' # rest"
    and t: "takeWhile is_digit (rev s) \<noteq> []"
    by (auto simp: ends_with_port_def split: list.splits)
  have "rev s = takeWhile is_digit (rev s) @ CHR '':'' # rest"
    using d by (metis takeWhile_dropWhile_id)
  then have "rev (rev s) = rev (takeWhile is_digit (rev s) @ CHR '':'' # rest)"
    by simp
  then have "s = rev rest @ CHR '':'' # rev (takeWhile is_digit (rev s))"
    by simp
  moreover have "list_all is_digit (rev (takeWhile is_digit (rev s)))"
    by (auto simp: list_all_iff dest: set_takeWhileD)
  moreover have "rev (takeWhile is_digit (rev s)) \<noteq> []"
    using t by simp
  ultimately show "\<exists>front ds. s = front @ CHR '':'' # ds \<and> ds \<noteq> [] \<and> list_all is_digit ds"
    by blast
next
  assume "\<exists>front ds. s = front @ CHR '':'' # ds \<and> ds \<noteq> [] \<and> list_all is_digit ds"
  then obtain front ds where s: "s = front @ CHR '':'' # ds" and ds: "ds \<noteq> []" "list_all is_digit ds"
    by blast
  have r: "rev s = rev ds @ CHR '':'' # rev front" by (simp add: s)
  show "ends_with_port s"
    unfolding ends_with_port_def r digits_then_colon [OF ds(2)] using ds(1) by simp
qed

lemma remove_port_port:
  assumes "ds \<noteq> []" "list_all is_digit ds"
  shows "remove_port (front @ CHR '':'' # ds) = front"
proof -
  have r: "rev (front @ CHR '':'' # ds) = rev ds @ CHR '':'' # rev front" by simp
  show ?thesis
    unfolding remove_port_def r digits_then_colon [OF assms(2)] using assms(1) by simp
qed

lemma remove_port_no_port: "\<not> ends_with_port s \<Longrightarrow> remove_port s = s"
  by (auto simp: remove_port_def ends_with_port_def split: list.splits simp del: dropWhile_eq_Nil_conv)

lemma remove_port_prefix: "prefix (remove_port s) s"
proof (cases "ends_with_port s")
  case True
  then show ?thesis by (auto simp: ends_with_port_iff remove_port_port)
next
  case False
  then show ?thesis by (simp add: remove_port_no_port)
qed

lemma ends_with_port_py_lower: "ends_with_port (py_lower s) \<longleftrightarrow> ends_with_port s"
proof -
  have comp: "(is_digit \<circ> lower_char) = is_digit" by (simp add: fun_eq_iff)
  have t: "takeWhile is_digit (rev (map lower_char s)) = map lower_char (takeWhile is_digit (rev s))"
    by (simp add: rev_map takeWhile_map comp)
  have d: "dropWhile is_digit (rev (map lower_char s)) = map lower_char (dropWhile is_digit (rev s))"
    by (simp add: rev_map dropWhile_map comp)
  show ?thesis
    unfolding ends_with_port_def py_lower_def t d
    by (cases "dropWhile is_digit (rev s)") (simp_all del: dropWhile_eq_Nil_conv)
qed

lemma ends_with_port_drop:
  assumes "ends_with_port (remove_port (drop k s))"
  shows "ends_with_port (remove_port s)"
proof -
  from assms have p: "ends_with_port (drop k s)"
    by (metis remove_port_no_port)
  then obtain f1 d1 where 1: "drop k s = f1 @ CHR '':'' # d1" "d1 \<noteq> []" "list_all is_digit d1"
    by (auto simp: ends_with_port_iff)
  then have r1: "remove_port (drop k s) = f1" by (simp add: remove_port_port)
  with assms obtain f2 d2 where 2: "f1 = f2 @ CHR '':'' # d2" "d2 \<noteq> []" "list_all is_digit d2"
    by (auto simp: ends_with_port_iff)
  have "s = take k s @ drop k s" by simp
  then have s: "s = (take k s @ f2 @ CHR '':'' # d2) @ CHR '':'' # d1"
    using 1 2 by simp
  have "remove_port s = take k s @ f2 @ CHR '':'' # d2"
    by (subst s) (rule remove_port_port [OF 1(2,3)])
  then have "remove_port s = (take k s @ f2) @ CHR '':'' # d2"
    by simp
  then show ?thesis
    using 2(2,3) ends_with_port_iff by blast
qed

lemma urlparse_netloc_chars:
  assumes "urlparse_netloc u = Some n"
  shows "CHR ''/'' \<notin> set n \<and> CHR ''?'' \<notin> set n \<and> CHR ''#'' \<notin> set n"
proof -
  have "\<And>xs. CHR ''/'' \<notin> set (takeWhile (\<lambda>c. c \<notin> set ''/?#'') xs)
            \<and> CHR ''?'' \<notin> set (takeWhile (\<lambda>c. c \<notin> set ''/?#'') xs)
            \<and> CHR ''#'' \<notin> set (takeWhile (\<lambda>c. c \<notin> set ''/?#'') xs)"
    by (auto dest: set_takeWhileD)
  with assms show ?thesis
    by (auto simp: urlparse_netloc_def Let_def split: if_splits)
qed

lemma sanitize_url_Some:
  assumes "sanitize_url url = Some d"
  obtains n where "authority url = Some n" and "n \<noteq> []"
    and "d = py_lower (remove_port (if startswith (py_lower n) ''www.'' then drop 4 n else n))"
    and "CHR ''.'' \<in> set d" and "2 \<le> length (last (split_on CHR ''.'' d))"
proof -
  from assms obtain n where n: "authority url = Some n"
    by (auto simp: sanitize_url_def authority_def Let_def split: if_splits option.splits)
  let ?d2 = "remove_port (if startswith (py_lower n) ''www.'' then drop 4 n else n)"
  from assms n have ne: "n \<noteq> []" and d: "d = py_lower ?d2"
    and dot: "CHR ''.'' \<in> set ?d2" and lab: "2 \<le> length (last (split_on CHR ''.'' ?d2))"
    by (auto simp: sanitize_url_def authority_def Let_def split: if_splits option.splits)
  have "CHR ''.'' \<in> set d"
    unfolding d using dot by (simp add: mem_py_lower_iff)
  moreover have "2 \<le> length (last (split_on CHR ''.'' d))"
    unfolding d using lab by (simp add: last_split_on_py_lower)
  ultimately show ?thesis using that n ne d by blast
qed

lemma sanitize_url_target:
  assumes "sanitize_url url = Some d"
  shows "normalize_target (Some d) = Some d"
proof -
  from assms obtain n where "d = py_lower (remove_port (if startswith (py_lower n) ''www.'' then drop 4 n else n))"
    and "CHR ''.'' \<in> set d"
    by (rule sanitize_url_Some)
  then have "py_lower d = d" and "d \<noteq> []"
    by (auto simp: py_lower_idem)
  then show ?thesis by (simp add: normalize_target_def)
qed

lemma determine_domain_Some:
  assumes "determine_domain ci = (Some d, name)"
  shows "sanitize_url ci = Some d"
    and "name = (if py_lower ci \<noteq> d \<and> \<not> startswith ci ''http'' \<and> \<not> startswith ci ''//''
                 then ci else takeWhile (\<lambda>c. c \<noteq> CHR ''.'') d)"
  using assms unfolding determine_domain_def first_label
  by (auto split: if_splits option.splits)


section \<open>Lemmas on the search client\<close>

lemma add_hits_ok:
  "list_all is_hit hits \<Longrightarrow> add_hits hits acc = (acc @ concat (map rendered hits), True)"
  by (induction hits acc rule: add_hits.induct)
     (auto simp: hit_text_def or_empty_def split: option.splits)

lemma add_hits_broken:
  "\<not> list_all is_hit hits \<Longrightarrow>
     add_hits hits acc = (acc @ concat (map rendered (takeWhile is_hit hits)), False)"
  by (induction hits acc rule: add_hits.induct)
     (auto simp: hit_text_def or_empty_def split: option.splits)

lemma search_loop_failed:
  assumes "page \<le> max_pages" and "page_failed (get page)"
  shows "search_loop get max_pages page acc = acc @ text_before_failure (get page)"
proof (cases "get page")
  case (Results hits)
  with assms(2) have broken: "\<not> list_all is_hit hits"
    by (simp add: page_failed_def)
  then have "hits \<noteq> []" by auto
  with assms(1) Results show ?thesis
    by (subst search_loop.simps) (simp add: add_hits_broken [OF broken] text_before_failure_def)
qed (use assms(1) in \<open>subst search_loop.simps, simp add: text_before_failure_def\<close>)+

lemma search_loop_ok:
  assumes "page \<le> max_pages" and "page_ok (get page)"
  shows "search_loop get max_pages page acc
         = search_loop get max_pages (Suc page) (acc @ page_text (get page))"
  using assms
  by (subst search_loop.simps)
     (auto simp: page_ok_def page_text_def add_hits_ok split: response.splits)

lemma search_loop_prefix:
  assumes "k \<le> max_pages" and "page_failed (get k)"
    and "\<forall>j. page \<le> j \<and> j < k \<longrightarrow> page_ok (get j)" and "page \<le> k"
  shows "search_loop get max_pages page acc
         = acc @ concat (map (\<lambda>j. page_text (get j)) [page..<k]) @ text_before_failure (get k)"
  using assms(3,4)
proof (induction "k - page" arbitrary: page acc)
  case 0
  then have "page = k" by simp
  then show ?case using assms(1,2) by (simp add: search_loop_failed)
next
  case (Suc n)
  then have lt: "page < k" by simp
  then have ok: "page_ok (get page)" using Suc.prems by simp
  have le: "page \<le> max_pages" using lt assms(1) by simp
  have step: "search_loop get max_pages (Suc page) (acc @ page_text (get page))
        = (acc @ page_text (get page))
          @ concat (map (\<lambda>j. page_text (get j)) [Suc page..<k]) @ text_before_failure (get k)"
    using Suc.hyps(2) Suc.prems lt by (intro Suc.hyps(1)) auto
  show ?case
    using lt
    by (simp add: search_loop_ok [of page max_pages get acc, OF le ok] step upt_conv_Cons)
qed

lemma fetch_failed_no_text:
  "fetch_failed r \<Longrightarrow> page_failed r \<and> text_before_failure r = []"
  by (auto simp: fetch_failed_def page_failed_def text_before_failure_def)

lemma search_without_endpoint:
  "SearXNGClient url = Inl ValueError \<Longrightarrow> search_web_standalone_text be q url pages = []"
  by (simp add: search_web_standalone_text_def)


section \<open>Lemmas on the candidate extractor\<close>

lemma not_local_at: "\<not> is_local_char CHR ''@''"
  by (simp add: is_local_char_def is_alpha_def is_upper_def is_lower_def is_digit_def)

lemma not_domain_at: "\<not> is_domain_char CHR ''@''"
  by (simp add: is_domain_char_def is_alpha_def is_upper_def is_lower_def is_digit_def)

lemma match_domain_le:
  assumes "match_domain run = Some k"
  shows "k \<le> length run"
proof -
  from assms obtain j js where
    f: "filter (\<lambda>j. run ! j = CHR ''.''
                  \<and> 2 \<le> length (takeWhile is_alpha (drop (j + 1) run)))
               (rev [1..<length run]) = j # js"
    and k: "k = j + 1 + length (takeWhile is_alpha (drop (j + 1) run))"
    by (auto simp: match_domain_def split: list.splits)
  have "j \<in> set (filter (\<lambda>j. run ! j = CHR ''.''
                  \<and> 2 \<le> length (takeWhile is_alpha (drop (j + 1) run)))
               (rev [1..<length run]))"
    unfolding f by simp
  then have "j < length run" by simp
  moreover have "length (takeWhile is_alpha (drop (j + 1) run)) \<le> length (drop (j + 1) run)"
    by (rule length_takeWhile_le)
  ultimately show ?thesis unfolding k by simp
qed

lemma match_email_one_at:
  assumes "match_email s = Some m"
  shows "count_list m CHR ''@'' = 1"
proof -
  from assms obtain after k where
    m: "m = takeWhile is_local_char s @ CHR ''@'' # take k after"
    and k: "match_domain (takeWhile is_domain_char after) = Some k"
    by (auto simp: match_email_def Let_def split: if_splits list.splits option.splits)
  have "k \<le> length (takeWhile is_domain_char after)"
    using k by (rule match_domain_le)
  then have "take k after = take k (takeWhile is_domain_char after)"
    by (rule take_takeWhile_prefix)
  then have "set (take k after) \<subseteq> set (takeWhile is_domain_char after)"
    by (metis set_take_subset)
  then have "CHR ''@'' \<notin> set (take k after)"
    using not_domain_at by (auto dest: set_takeWhileD)
  moreover have "CHR ''@'' \<notin> set (takeWhile is_local_char s)"
    using not_local_at by (auto dest: set_takeWhileD)
  ultimately show ?thesis
    unfolding m by simp
qed

lemma findall_matches:
  "m \<in> set (findall s) \<Longrightarrow> \<exists>s'. match_email s' = Some m"
  by (induction s rule: findall.induct) (auto split: option.splits)

lemma count_at_py_lower: "count_list (py_lower m) CHR ''@'' = count_list m CHR ''@''"
  by (induction m) (auto simp: py_lower_def)


section \<open>Lemmas on the candidate filter\<close>

lemma filter_as_set:
  "filter_blacklisted_emails emails target =
     sorted_list_of_set {e \<in> set emails. check_email (normalize_target target) e = Keep}"
proof -
  have "{e \<in> set emails. check_email (normalize_target target) e = Keep}
        = set (filter (\<lambda>e. check_email (normalize_target target) e = Keep) emails)"
    by auto
  then show ?thesis
    by (simp only: filter_blacklisted_emails_def Let_def sorted_list_of_set_sort_remdups)
qed

lemma set_filter_blacklisted:
  "set (filter_blacklisted_emails emails target) =
     {e \<in> set emails. check_email (normalize_target target) e = Keep}"
  by (simp add: filter_blacklisted_emails_def Let_def)

lemma check_email_no_at: "CHR ''@'' \<notin> set e \<Longrightarrow> check_email t e = Malformed"
  by (simp add: check_email_def split_once_def)

lemma check_email_at:
  "CHR ''@'' \<in> set e \<Longrightarrow>
     check_email t e =
       (if domain_part_of e \<in> set BLACKLISTED_DOMAINS then Blacklisted
        else if (case t of Some d \<Rightarrow> domain_part_of e \<noteq> d | None \<Rightarrow> False) then NonTarget
        else Keep)"
  by (simp add: check_email_def split_once_def domain_part_of_def split: option.split)

lemma check_email_Keep_iff:
  "check_email t e = Keep \<longleftrightarrow>
     CHR ''@'' \<in> set e \<and> domain_part_of e \<notin> set BLACKLISTED_DOMAINS
     \<and> (\<forall>d. t = Some d \<longrightarrow> domain_part_of e = d)"
  by (cases "CHR ''@'' \<in> set e") (auto simp: check_email_no_at check_email_at split: option.splits)

lemma filter_output:
  shows "sorted (filter_blacklisted_emails emails target)"
    and "distinct (filter_blacklisted_emails emails target)"
    and "e \<in> set (filter_blacklisted_emails emails target)
           \<Longrightarrow> domain_part_of e \<notin> set BLACKLISTED_DOMAINS"
    and "e \<in> set (filter_blacklisted_emails emails target)
           \<Longrightarrow> normalize_target target = Some t \<Longrightarrow> domain_part_of e = t"
proof -
  show "sorted (filter_blacklisted_emails emails target)"
    "distinct (filter_blacklisted_emails emails target)"
    by (simp_all add: filter_blacklisted_emails_def Let_def)
  show "domain_part_of e \<notin> set BLACKLISTED_DOMAINS"
    if "e \<in> set (filter_blacklisted_emails emails target)"
    using that by (simp add: set_filter_blacklisted check_email_Keep_iff)
  show "domain_part_of e = t"
    if "e \<in> set (filter_blacklisted_emails emails target)" "normalize_target target = Some t"
    using that by (simp add: set_filter_blacklisted check_email_Keep_iff)
qed


section \<open>Lemmas on formatting and on the run\<close>

lemma format_fields_plain:
  assumes "CHR ''{'' \<notin> set s" and "CHR ''}'' \<notin> set s"
  shows "format_fields args s = Some (Inr s)"
  using assms by (induction s) (auto simp: emit_def)

lemma format_query_plain:
  assumes "CHR ''{'' \<notin> set s" and "CHR ''}'' \<notin> set s" and "CHR '' '' \<notin> set s"
  shows "format_query ext ceo d n s = Inr s"
proof -
  have "\<not> sublist [CHR 0x22, CHR 0x22, CHR '' ''] s" "\<not> sublist [CHR '' '', CHR 0x22, CHR 0x22] s"
    using assms(3) set_mono_sublist by fastforce+
  then show ?thesis
    using assms(1,2)
    by (simp add: format_query_def py_format_def format_fields_plain py_remove_absent)
qed

lemma base_templates_truthy:
  "truthy a = truthy a' \<Longrightarrow> truthy b = truthy b' \<Longrightarrow> base_templates a b = base_templates a' b'"
  by (simp add: base_templates_def)

lemma base_templates_both: \<open>
  length (base_templates (Some ''n'') (Some ''d'')) = 5
  \<and> list_all (\<lambda>t. sublist ''"{name}"'' t \<and> sublist ''{domain}'' t)
       (take 3 (base_templates (Some ''n'') (Some ''d'')))
  \<and> list_all (\<lambda>t. \<not> sublist ''{name}'' t \<and> sublist ''{domain}'' t \<and> \<not> sublist ''{search_name}'' t)
       (drop 3 (base_templates (Some ''n'') (Some ''d'')))\<close>
  by code_simp

lemma base_templates_name_only: \<open>
  length (base_templates (Some ''n'') None) = 4
  \<and> list_all (\<lambda>t. sublist ''"{name}"'' t \<and> sublist ''"{search_name}"'' t)
       (take 3 (base_templates (Some ''n'') None))
  \<and> list_all (\<lambda>t. \<not> sublist ''{name}'' t \<and> sublist ''"{search_name}"'' t)
       (drop 3 (base_templates (Some ''n'') None))\<close>
  by code_simp

lemma run_queries_Inl:
  assumes "map (format_query ext ceo d n) ts = map Inr qs @ Inl e # rest"
  shows "run_queries ext net ceo d n url i ts acc = Inl e"
  using assms
proof (induction qs arbitrary: ts i acc)
  case Nil
  then obtain t ts' where "ts = t # ts'" and "format_query ext ceo d n t = Inl e"
    by (cases ts) auto
  then show ?case by simp
next
  case (Cons q qs)
  then obtain t ts' where ts: "ts = t # ts'" and t: "format_query ext ceo d n t = Inr q"
    and rest: "map (format_query ext ceo d n) ts' = map Inr qs @ Inl e # rest"
    by (cases ts) auto
  show ?case
    unfolding ts using t Cons.IH [OF rest] by (simp add: Let_def)
qed

lemma run_queries_without_endpoint:
  assumes "SearXNGClient url = Inl ValueError"
    and "run_queries ext net ceo tdom name url i ts acc = Inr out"
  shows "out = acc"
  using assms(2)
proof (induction ts arbitrary: i acc)
  case Nil
  then show ?case by simp
next
  case (Cons t ts)
  then show ?case
    by (auto simp: search_without_endpoint [OF assms(1)] List.union_def split: sum.splits)
qed

lemma find_emails_logic_Inr:
  assumes "find_emails_logic ext net ci ceo url = Inr r"
  obtains all_found where
    "run_queries ext net ceo (fst (determine_domain ci)) (snd (determine_domain ci)) url 0
       (query_templates ceo (fst (determine_domain ci))) [] = Inr all_found"
    and "details r = \<lparr>search_name = snd (determine_domain ci),
                       target_domain = fst (determine_domain ci)\<rparr>"
    and "found_emails r = (if all_found = [] then []
                           else filter_blacklisted_emails all_found (fst (determine_domain ci)))"
    and "error r = None"
  using assms
  by (cases "determine_domain ci") (auto simp: find_emails_logic_def split: sum.splits)

lemma acme_domain: "determine_domain ''acme.com'' = (Some ''acme.com'', ''acme'')"
  by code_simp

lemma sample_run:
  "find_emails_logic sample_formatter sample_backend ''acme.com'' (Some ''Jane Doe'')
       ''http://localhost:8080/''
     = Inr \<lparr>details = \<lparr>search_name = ''acme'', target_domain = Some ''acme.com''\<rparr>,
            found_emails = [''jane.doe@acme.com'', ''support@acme.com''], error = None\<rparr>"
  by code_simp

lemma no_endpoint_run:
  "find_emails_logic sample_formatter sample_backend ''acme.com'' (Some ''Jane Doe'')
       ''localhost:8080''
     = Inr \<lparr>details = \<lparr>search_name = ''acme'', target_domain = Some ''acme.com''\<rparr>,
            found_emails = [], error = None\<rparr>"
  by code_simp

lemma jane_brace_queries: \<open>
  map (format_query ext (Some ''Jane {Doe}'') (Some ''acme.com'') ''acme'')
      (query_templates (Some ''Jane {Doe}'') (Some ''acme.com''))
  = map Inr [''"Jane {Doe}" "acme.com" email'',
             ''"Jane {Doe}" email address acme.com'',
             ''contact "Jane {Doe}" acme.com'',
             ''"acme.com" email'',
             ''contact acme.com'']
    @ Inl KeyError # [Inl KeyError, Inl KeyError, Inl KeyError, Inr ''"jane@acme.com"'']\<close>
  by code_simp


section \<open>The claims\<close>

subsection \<open>C1: the error field of the result\<close>

text \<open>
  Claim C1, as the code has it. \<open>find_emails_logic\<close> sets \<open>error\<close> to \<open>None\<close> when it builds
  the result and never assigns it again: every run that returns a result returns it
  with \<open>error = None\<close>. A missing or invalid search endpoint is absorbed too:
  \<open>search_web_standalone_text\<close> logs it and returns the empty string for every query,
  so the run ends with no email found and no error reported.
\<close>

theorem error_field_never_set:
  assumes "find_emails_logic ext net ci ceo url = Inr r"
  shows "error r = None \<and> (SearXNGClient url = Inl ValueError \<longrightarrow> found_emails r = [])"
proof -
  from assms obtain all_found where
    run: "run_queries ext net ceo (fst (determine_domain ci)) (snd (determine_domain ci)) url 0
       (query_templates ceo (fst (determine_domain ci))) [] = Inr all_found"
    and found: "found_emails r = (if all_found = [] then []
                           else filter_blacklisted_emails all_found (fst (determine_domain ci)))"
    and err: "error r = None"
    by (rule find_emails_logic_Inr)
  have "found_emails r = []" if "SearXNGClient url = Inl ValueError"
    using run_queries_without_endpoint [OF that run] found by simp
  with err show ?thesis by blast
qed

text \<open>The theorem at two runs against the sample backend: one with a usable endpoint,
  one with an endpoint without scheme, which \<open>SearXNGClient\<close> refuses.\<close>

theorem error_field_never_set_witness:
  "find_emails_logic sample_formatter sample_backend ''acme.com'' (Some ''Jane Doe'')
         ''http://localhost:8080/''
       = Inr \<lparr>details = \<lparr>search_name = ''acme'', target_domain = Some ''acme.com''\<rparr>,
              found_emails = [''jane.doe@acme.com'', ''support@acme.com''], error = None\<rparr>
   \<and> error \<lparr>details = \<lparr>search_name = ''acme'', target_domain = Some ''acme.com''\<rparr>,
          found_emails = [''jane.doe@acme.com'', ''support@acme.com''], error = None\<rparr> = None
   \<and> SearXNGClient ''localhost:8080'' = Inl ValueError
   \<and> find_emails_logic sample_formatter sample_backend ''acme.com'' (Some ''Jane Doe'')
         ''localhost:8080''
       = Inr \<lparr>details = \<lparr>search_name = ''acme'', target_domain = Some ''acme.com''\<rparr>,
              found_emails = [], error = None\<rparr>
   \<and> found_emails \<lparr>details = \<lparr>search_name = ''acme'', target_domain = Some ''acme.com''\<rparr>,
          found_emails = [], error = None\<rparr> = []"
proof -
  have refused: "SearXNGClient ''localhost:8080'' = Inl ValueError"
    by (simp add: SearXNGClient_def startswith_def)
  from error_field_never_set [OF sample_run] error_field_never_set [OF no_endpoint_run]
       sample_run no_endpoint_run refused
  show ?thesis by simp
qed

text \<open>
  Claim C1 as stated fails: with the empty endpoint, and with an endpoint that has no
  \<open>http://\<close> or \<open>https://\<close> scheme, the run returns a result whose \<open>error\<close> is \<open>None\<close>.
\<close>

theorem missing_endpoint_no_error:
  "find_emails_logic sample_formatter sample_backend ''acme.com'' None []
     = Inr \<lparr>details = \<lparr>search_name = ''acme'', target_domain = Some ''acme.com''\<rparr>,
            found_emails = [], error = None\<rparr>
   \<and> find_emails_logic sample_formatter sample_backend ''acme.com'' None ''localhost:8080''
     = Inr \<lparr>details = \<lparr>search_name = ''acme'', target_domain = Some ''acme.com''\<rparr>,
            found_emails = [], error = None\<rparr>"
  by code_simp

subsection \<open>C2: the search name\<close>

text \<open>
  Claim C2, as the code has it. When the normalization of the input succeeds with
  domain \<open>d\<close>, the search name is the input itself if the input does not start with
  \<open>http\<close> or \<open>//\<close> and its lowercase form differs from \<open>d\<close>; in every other case (the
  input starts with \<open>http\<close> or \<open>//\<close>, or it is \<open>d\<close> up to case) the search name is the
  first label of \<open>d\<close>, the part before its first dot. A run that returns a result
  records exactly this target domain and search name.
\<close>

theorem search_name_rule:
  "(determine_domain ci = (Some d, name) \<longrightarrow>
      sanitize_url ci = Some d
      \<and> name = (if py_lower ci \<noteq> d \<and> \<not> startswith ci ''http'' \<and> \<not> startswith ci ''//''
                 then ci else takeWhile (\<lambda>c. c \<noteq> CHR ''.'') d))
   \<and> (find_emails_logic ext net ci ceo url = Inr r \<longrightarrow>
        (target_domain (details r), search_name (details r)) = determine_domain ci)"
proof -
  have "(target_domain (details r), search_name (details r)) = determine_domain ci"
    if "find_emails_logic ext net ci ceo url = Inr r"
    using that by (rule find_emails_logic_Inr) simp
  then show ?thesis
    using determine_domain_Some by blast
qed

theorem search_name_rule_witness:
  "determine_domain ''www.acme.com'' = (Some ''acme.com'', ''www.acme.com'')
   \<and> sanitize_url ''www.acme.com'' = Some ''acme.com''
   \<and> determine_domain ''acme.com'' = (Some ''acme.com'', ''acme'')
   \<and> find_emails_logic sample_formatter sample_backend ''acme.com'' (Some ''Jane Doe'')
         ''http://localhost:8080/''
       = Inr \<lparr>details = \<lparr>search_name = ''acme'', target_domain = Some ''acme.com''\<rparr>,
              found_emails = [''jane.doe@acme.com'', ''support@acme.com''], error = None\<rparr>"
proof -
  have a: "determine_domain ''www.acme.com'' = (Some ''acme.com'', ''www.acme.com'')"
    by code_simp
  from search_name_rule [of "''www.acme.com''" "''acme.com''" "''www.acme.com''"] a
  have b: "sanitize_url ''www.acme.com'' = Some ''acme.com''" by blast
  from search_name_rule
         [where ci = "''acme.com''" and ext = sample_formatter and net = sample_backend
            and ceo = "Some ''Jane Doe''" and url = "''http://localhost:8080/''"
            and r = "\<lparr>details = \<lparr>search_name = ''acme'', target_domain = Some ''acme.com''\<rparr>,
                     found_emails = [''jane.doe@acme.com'', ''support@acme.com''],
                     error = None\<rparr>"]
       sample_run
  have c: "determine_domain ''acme.com'' = (Some ''acme.com'', ''acme'')" by simp
  from a b c sample_run show ?thesis by blast
qed

text \<open>
  Claim C2 as stated fails for an input with a scheme: \<open>https://acme.com\<close> is not the
  bare domain, yet the search name is \<open>acme\<close>, not the input. It also fails for an
  input that differs from the domain in case only.
\<close>

theorem scheme_input_loses_name:
  "determine_domain ''https://acme.com'' = (Some ''acme.com'', ''acme'')
   \<and> determine_domain ''ACME.COM'' = (Some ''acme.com'', ''acme'')"
  by code_simp

subsection \<open>C3: malformed candidates\<close>

text \<open>
  Claim C3, as the code has it. A candidate without \<open>@\<close> is malformed and skipped: it is
  never in the output, whatever the other candidates and the target domain are (the
  filter is a total function: the \<open>ValueError\<close> of the unpacking is its only raise, and
  it is caught). A candidate with one \<open>@\<close> or more is never malformed: the split is at
  the first \<open>@\<close>, and the candidate is in the output exactly when it is a candidate,
  the rest after the first \<open>@\<close> is not blacklisted, and that rest is the normalized
  target domain when there is one.
\<close>

theorem zero_at_skipped:
  "(CHR ''@'' \<notin> set e \<longrightarrow>
      check_email (normalize_target target) e = Malformed
      \<and> e \<notin> set (filter_blacklisted_emails emails target))
   \<and> (CHR ''@'' \<in> set e \<longrightarrow>
      check_email (normalize_target target) e \<noteq> Malformed
      \<and> (e \<in> set (filter_blacklisted_emails emails target) \<longleftrightarrow>
           e \<in> set emails \<and> domain_part_of e \<notin> set BLACKLISTED_DOMAINS
           \<and> (\<forall>d. normalize_target target = Some d \<longrightarrow> domain_part_of e = d)))"
  by (auto simp: set_filter_blacklisted check_email_no_at check_email_Keep_iff check_email_at)

theorem zero_at_skipped_witness:
  "CHR ''@'' \<notin> set ''jane.doe'' \<and> CHR ''@'' \<in> set ''a@b@c''
   \<and> check_email (normalize_target None) ''jane.doe'' = Malformed
   \<and> ''jane.doe'' \<notin> set (filter_blacklisted_emails [''jane.doe'', ''a@b@c''] None)
   \<and> ''a@b@c'' \<in> set (filter_blacklisted_emails [''jane.doe'', ''a@b@c''] None)"
proof -
  have a: "CHR ''@'' \<notin> set ''jane.doe''" by simp
  have b: "CHR ''@'' \<in> set ''a@b@c''" by simp
  have c: "domain_part_of ''a@b@c'' \<notin> set BLACKLISTED_DOMAINS" by code_simp
  have d: "normalize_target None = None" by (simp add: normalize_target_def)
  from zero_at_skipped [of "''jane.doe''" None "[''jane.doe'', ''a@b@c'']"]
       zero_at_skipped [of "''a@b@c''" None "[''jane.doe'', ''a@b@c'']"] a b c d
  show ?thesis by simp
qed

text \<open>
  Claim C3 as stated fails for a candidate with more than one \<open>@\<close>: \<open>a@b@c\<close> has two, is
  split into \<open>a\<close> and \<open>b@c\<close>, and is in the output.
\<close>

theorem multiple_at_kept:
  "count_list ''a@b@c'' CHR ''@'' = 2
   \<and> filter_blacklisted_emails [''a@b@c''] None = [''a@b@c'']"
  by code_simp

subsection \<open>C4: the base strategy of the query planner\<close>

text \<open>
  Claim C4, as the code has it. With the contact name and the domain both known the
  base strategy has five templates in all: the first three hold the quoted name and
  the domain, the last two are the domain-only fallbacks. With the contact name known
  and the domain unknown it has four templates in all: the first three hold the quoted
  name and the quoted search name, the last one is the company-only fallback.
\<close>

theorem base_strategy: \<open>
  (truthy ceo_name \<and> truthy domain \<longrightarrow>
     length (base_templates ceo_name domain) = 5
     \<and> (\<forall>t\<in>set (take 3 (base_templates ceo_name domain)).
           sublist ''"{name}"'' t \<and> sublist ''{domain}'' t)
     \<and> (\<forall>t\<in>set (drop 3 (base_templates ceo_name domain)).
           \<not> sublist ''{name}'' t \<and> sublist ''{domain}'' t \<and> \<not> sublist ''{search_name}'' t))
  \<and> (truthy ceo_name \<and> \<not> truthy domain \<longrightarrow>
     length (base_templates ceo_name domain) = 4
     \<and> (\<forall>t\<in>set (take 3 (base_templates ceo_name domain)).
           sublist ''"{name}"'' t \<and> sublist ''"{search_name}"'' t)
     \<and> (\<forall>t\<in>set (drop 3 (base_templates ceo_name domain)).
           \<not> sublist ''{name}'' t \<and> sublist ''"{search_name}"'' t))\<close>
proof -
  have both: "base_templates ceo_name domain = base_templates (Some ''n'') (Some ''d'')"
    if "truthy ceo_name" "truthy domain"
    using that by (intro base_templates_truthy) (simp_all add: truthy_def)
  have name_only: "base_templates ceo_name domain = base_templates (Some ''n'') None"
    if "truthy ceo_name" "\<not> truthy domain"
    using that by (intro base_templates_truthy) (simp_all add: truthy_def)
  show ?thesis
    using base_templates_both base_templates_name_only both name_only
    by (auto simp: list_all_iff)
qed

theorem base_strategy_witness: \<open>
  truthy (Some ''Jane Doe'') \<and> truthy (Some ''acme.com'') \<and> \<not> truthy None
  \<and> length (base_templates (Some ''Jane Doe'') (Some ''acme.com'')) = 5
  \<and> length (base_templates (Some ''Jane Doe'') None) = 4\<close>
proof -
  have t: "truthy (Some ''Jane Doe'')" "truthy (Some ''acme.com'')" "\<not> truthy None"
    by (simp_all add: truthy_def)
  from base_strategy [of "Some ''Jane Doe''" "Some ''acme.com''"]
       base_strategy [of "Some ''Jane Doe''" None] t
  show ?thesis by blast
qed

text \<open>
  Claim C4 as stated fails on the counts: for the contact name \<open>Jane Doe\<close> there are
  three templates with the name, not five with two more behind them, when the domain
  is known (five templates in all, and only one of them holds the domain in quotes
  beside the quoted name), and three, not four with one more, when it is not (four in
  all).
\<close>

theorem three_name_templates_not_five: \<open>
  length (base_templates (Some ''Jane Doe'') (Some ''acme.com'')) = 5
  \<and> length (filter (sublist ''{name}'') (base_templates (Some ''Jane Doe'') (Some ''acme.com''))) = 3
  \<and> length (filter (sublist ''"{domain}"'')
              (filter (sublist ''"{name}"'')
                 (base_templates (Some ''Jane Doe'') (Some ''acme.com'')))) = 1
  \<and> length (base_templates (Some ''Jane Doe'') None) = 4
  \<and> length (filter (sublist ''{name}'') (base_templates (Some ''Jane Doe'') None)) = 3\<close>
  by code_simp

subsection \<open>C5: the normalized domain\<close>

text \<open>
  Claim C5, as the code has it. A domain returned by \<open>sanitize_url\<close> is lowercase, holds
  no \<open>/\<close> (so no \<open>://\<close> of a scheme and no path), holds a dot, and its last label has
  at least two characters. One leading \<open>www.\<close> and one trailing port are removed from the
  authority of the input: the result starts with \<open>www.\<close> only if the authority started
  with \<open>www.www.\<close> (in any case), and ends with a port only if the authority still
  ended with a port after one was removed.
\<close>

theorem sanitize_url_domain:
  assumes "sanitize_url url = Some d"
  shows "py_lower d = d
    \<and> CHR ''/'' \<notin> set d
    \<and> CHR ''.'' \<in> set d
    \<and> 2 \<le> length (last (split_on CHR ''.'' d))
    \<and> authority url \<noteq> None
    \<and> (\<forall>n. authority url = Some n \<longrightarrow>
           (startswith d ''www.'' \<longrightarrow> startswith (py_lower n) ''www.www.'')
           \<and> (ends_with_port d \<longrightarrow> ends_with_port (remove_port n)))"
proof -
  from assms obtain n where n: "authority url = Some n"
    and d: "d = py_lower (remove_port (if startswith (py_lower n) ''www.'' then drop 4 n else n))"
    and dot: "CHR ''.'' \<in> set d" and lab: "2 \<le> length (last (split_on CHR ''.'' d))"
    by (rule sanitize_url_Some)
  let ?d1 = "if startswith (py_lower n) ''www.'' then drop 4 n else n"
  have low: "py_lower d = d"
    unfolding d by (rule py_lower_idem)
  have "CHR ''/'' \<notin> set n"
    using n urlparse_netloc_chars unfolding authority_def by blast
  moreover have "set (remove_port ?d1) \<subseteq> set ?d1"
    by (rule set_mono_prefix [OF remove_port_prefix])
  moreover have "set ?d1 \<subseteq> set n"
    by (simp add: set_drop_subset)
  ultimately have "CHR ''/'' \<notin> set (remove_port ?d1)" by blast
  then have slash: "CHR ''/'' \<notin> set d"
    unfolding d by (simp add: mem_py_lower_iff)
  have www: "startswith (py_lower n) ''www.www.''" if w: "startswith d ''www.''"
  proof -
    from w have "startswith (py_lower (remove_port ?d1)) ''www.''" by (simp add: d)
    then have 1: "startswith (py_lower ?d1) ''www.''"
      by (rule startswith_py_lower_prefix [OF remove_port_prefix])
    show ?thesis
    proof (cases "startswith (py_lower n) ''www.''")
      case True
      with 1 have "startswith (drop 4 (py_lower n)) ''www.''"
        by (simp add: py_lower_def drop_map)
      with True have "startswith (py_lower n) (''www.'' @ ''www.'')"
        by (rule startswith_drop) simp
      then show ?thesis by simp
    next
      case False
      with 1 show ?thesis by simp
    qed
  qed
  have port: "ends_with_port (remove_port n)" if p: "ends_with_port d"
  proof -
    from p have 1: "ends_with_port (remove_port ?d1)"
      by (simp add: d ends_with_port_py_lower)
    show ?thesis
    proof (cases "startswith (py_lower n) ''www.''")
      case True
      with 1 have "ends_with_port (remove_port (drop 4 n))" by simp
      then show ?thesis by (rule ends_with_port_drop)
    next
      case False
      with 1 show ?thesis by simp
    qed
  qed
  from low slash dot lab n www port show ?thesis by auto
qed

text \<open>The theorem at an ordinary URL, and at one whose authority repeats \<open>www.\<close> and the
  port.\<close>

theorem sanitize_url_domain_witness:
  "sanitize_url ''https://www.example.com:8080/path'' = Some ''example.com''
   \<and> py_lower ''example.com'' = ''example.com''
   \<and> CHR ''/'' \<notin> set ''example.com''
   \<and> CHR ''.'' \<in> set ''example.com''
   \<and> 2 \<le> length (last (split_on CHR ''.'' ''example.com''))
   \<and> sanitize_url ''https://WWW.www.Example.com:80:81/'' = Some ''www.example.com:80''
   \<and> authority ''https://WWW.www.Example.com:80:81/'' = Some ''WWW.www.Example.com:80:81''
   \<and> startswith ''www.example.com:80'' ''www.''
   \<and> ends_with_port ''www.example.com:80''
   \<and> startswith (py_lower ''WWW.www.Example.com:80:81'') ''www.www.''
   \<and> ends_with_port (remove_port ''WWW.www.Example.com:80:81'')"
proof -
  have h: "sanitize_url ''https://www.example.com:8080/path'' = Some ''example.com''"
    by code_simp
  have k: "sanitize_url ''https://WWW.www.Example.com:80:81/'' = Some ''www.example.com:80''"
    by code_simp
  have n: "authority ''https://WWW.www.Example.com:80:81/'' = Some ''WWW.www.Example.com:80:81''"
    by code_simp
  have w: "startswith ''www.example.com:80'' ''www.''"
    by code_simp
  have p: "ends_with_port ''www.example.com:80''"
    by code_simp
  from sanitize_url_domain [OF h] sanitize_url_domain [OF k] h k n w p
  show ?thesis by blast
qed

text \<open>
  Claim C5 as stated fails: the host \<open>www.www.example.com\<close> is normalized to a domain that
  starts with \<open>www.\<close>, an authority with two port suffixes keeps one, and an input with
  a scheme but no slashes keeps the scheme in front.
\<close>

theorem www_prefix_survives:
  "sanitize_url ''www.www.example.com'' = Some ''www.example.com''
   \<and> startswith ''www.example.com'' ''www.''
   \<and> sanitize_url ''example.com:80:80'' = Some ''example.com:80''
   \<and> ends_with_port ''example.com:80''
   \<and> sanitize_url ''http:example.com'' = Some ''http:example.com''"
  by code_simp

subsection \<open>C6: the invariants of the filter's output\<close>

text \<open>
  Claim C6, as the code has it. For every list of candidates and every target domain
  argument the output of the filter is sorted, has no duplicates, and holds no email
  whose domain part is blacklisted; when the target domain is given and not empty,
  every email in the output has the lowercase form of the target domain as its domain
  part. The target domain of a run is lowercase and not empty, so the \<open>found_emails\<close> of
  every run that returns a result are sorted, without duplicates, free of blacklisted
  domains, and have exactly the run's target domain as domain part when there is one.
\<close>

theorem found_emails_invariants:
  "(sorted (filter_blacklisted_emails emails target)
    \<and> distinct (filter_blacklisted_emails emails target)
    \<and> (\<forall>e\<in>set (filter_blacklisted_emails emails target).
          domain_part_of e \<notin> set BLACKLISTED_DOMAINS)
    \<and> (\<forall>t. target = Some t \<and> t \<noteq> [] \<longrightarrow>
          (\<forall>e\<in>set (filter_blacklisted_emails emails target). domain_part_of e = py_lower t)))
   \<and> (find_emails_logic ext net ci ceo url = Inr r \<longrightarrow>
        sorted (found_emails r) \<and> distinct (found_emails r)
        \<and> (\<forall>e\<in>set (found_emails r). domain_part_of e \<notin> set BLACKLISTED_DOMAINS)
        \<and> (\<forall>t. target_domain (details r) = Some t \<longrightarrow>
              (\<forall>e\<in>set (found_emails r). domain_part_of e = t)))"
proof -
  have filt: "sorted (filter_blacklisted_emails emails target)
    \<and> distinct (filter_blacklisted_emails emails target)
    \<and> (\<forall>e\<in>set (filter_blacklisted_emails emails target).
          domain_part_of e \<notin> set BLACKLISTED_DOMAINS)
    \<and> (\<forall>t. target = Some t \<and> t \<noteq> [] \<longrightarrow>
          (\<forall>e\<in>set (filter_blacklisted_emails emails target). domain_part_of e = py_lower t))"
    using filter_output [where emails = emails and target = target]
    by (auto simp: normalize_target_def)
  have run: "sorted (found_emails r) \<and> distinct (found_emails r)
        \<and> (\<forall>e\<in>set (found_emails r). domain_part_of e \<notin> set BLACKLISTED_DOMAINS)
        \<and> (\<forall>t. target_domain (details r) = Some t \<longrightarrow>
              (\<forall>e\<in>set (found_emails r). domain_part_of e = t))"
    if "find_emails_logic ext net ci ceo url = Inr r"
  proof -
    from that obtain all_found where
      det: "details r = \<lparr>search_name = snd (determine_domain ci),
                          target_domain = fst (determine_domain ci)\<rparr>"
      and found: "found_emails r = (if all_found = [] then []
                     else filter_blacklisted_emails all_found (fst (determine_domain ci)))"
      by (rule find_emails_logic_Inr)
    have tgt: "normalize_target (Some t) = Some t" if "fst (determine_domain ci) = Some t" for t
    proof -
      from that have "determine_domain ci = (Some t, snd (determine_domain ci))"
        by (metis prod.collapse)
      then have "sanitize_url ci = Some t" by (rule determine_domain_Some(1))
      then show ?thesis by (rule sanitize_url_target)
    qed
    show ?thesis
    proof (cases "all_found = []")
      case True
      with found show ?thesis by simp
    next
      case False
      with found have f: "found_emails r = filter_blacklisted_emails all_found (fst (determine_domain ci))"
        by simp
      show ?thesis
        unfolding f det
        using filter_output [where emails = all_found and target = "fst (determine_domain ci)"] tgt
        by auto
    qed
  qed
  from filt run show ?thesis by blast
qed

theorem found_emails_invariants_witness:
  "filter_blacklisted_emails
       [''x@hunter.io'', ''support@acme.com'', ''jane.doe@acme.com'', ''bob@other.org'']
       (Some ''acme.com'') = [''jane.doe@acme.com'', ''support@acme.com'']
   \<and> sorted [''jane.doe@acme.com'', ''support@acme.com'']
   \<and> distinct [''jane.doe@acme.com'', ''support@acme.com'']
   \<and> domain_part_of ''jane.doe@acme.com'' \<notin> set BLACKLISTED_DOMAINS
   \<and> domain_part_of ''jane.doe@acme.com'' = ''acme.com''
   \<and> find_emails_logic sample_formatter sample_backend ''acme.com'' (Some ''Jane Doe'')
         ''http://localhost:8080/''
       = Inr \<lparr>details = \<lparr>search_name = ''acme'', target_domain = Some ''acme.com''\<rparr>,
              found_emails = [''jane.doe@acme.com'', ''support@acme.com''], error = None\<rparr>"
proof -
  let ?r = "\<lparr>details = \<lparr>search_name = ''acme'', target_domain = Some ''acme.com''\<rparr>,
            found_emails = [''jane.doe@acme.com'', ''support@acme.com''], error = None\<rparr>"
  have out: "filter_blacklisted_emails
               [''x@hunter.io'', ''support@acme.com'', ''jane.doe@acme.com'', ''bob@other.org'']
               (Some ''acme.com'') = [''jane.doe@acme.com'', ''support@acme.com'']"
    by code_simp
  note inv = found_emails_invariants
         [of "[''x@hunter.io'', ''support@acme.com'', ''jane.doe@acme.com'', ''bob@other.org'']"
             "Some ''acme.com''" sample_formatter sample_backend "''acme.com''" "Some ''Jane Doe''"
             "''http://localhost:8080/''" ?r, unfolded out]
  from inv have "sorted [''jane.doe@acme.com'', ''support@acme.com'']"
    and "distinct [''jane.doe@acme.com'', ''support@acme.com'']"
    and "\<forall>e\<in>set [''jane.doe@acme.com'', ''support@acme.com''].
           domain_part_of e \<notin> set BLACKLISTED_DOMAINS"
    and "\<forall>t. target_domain (details ?r) = Some t \<longrightarrow>
           (\<forall>e\<in>set (found_emails ?r). domain_part_of e = t)"
    using sample_run by blast+
  then show ?thesis
    using out sample_run by auto
qed

text \<open>
  Claim C6 as stated fails for a target domain argument that is not lowercase, and for
  the empty one: the filter compares with the lowercase form, and takes the empty string
  for no target at all.
\<close>

theorem uppercase_target_not_equal:
  "filter_blacklisted_emails [''a@acme.com''] (Some ''ACME.COM'') = [''a@acme.com'']
   \<and> domain_part_of ''a@acme.com'' \<noteq> ''ACME.COM''
   \<and> filter_blacklisted_emails [''a@b.org''] (Some []) = [''a@b.org'']
   \<and> domain_part_of ''a@b.org'' \<noteq> []"
  by code_simp

subsection \<open>C7: failure isolation in the search client\<close>

text \<open>
  Claim C7, as the code has it. Let pages 1 to \<open>k - 1\<close> of a query be fetched in full and
  let page \<open>k\<close>, with \<open>k\<close> between 1 and \<open>max_pages\<close>, fail. Then \<open>search\<close> stops paging and
  returns the text of pages 1 to \<open>k - 1\<close>, in order, followed by the text of the hits of
  page \<open>k\<close> that were read before the failure. When the fetch of page \<open>k\<close> itself fails
  (a timeout, a transport-level error, a response that is not JSON, any other exception
  before the first hit) there are no such hits, and the result is exactly the text of
  pages 1 to \<open>k - 1\<close>. \<open>search\<close> is a total function with a string as its value: no
  failure of a page reaches its caller.
\<close>

theorem search_failure_isolation:
  assumes "1 \<le> k" and "k \<le> max_pages"
    and "\<forall>j. 1 \<le> j \<and> j < k \<longrightarrow> page_ok (be base_url query j)"
    and "page_failed (be base_url query k)"
  shows "search be base_url query max_pages
           = concat (map (\<lambda>j. page_text (be base_url query j)) [1..<k])
             @ text_before_failure (be base_url query k)
         \<and> (fetch_failed (be base_url query k) \<longrightarrow>
               search be base_url query max_pages
                 = concat (map (\<lambda>j. page_text (be base_url query j)) [1..<k]))"
proof -
  have all: "search be base_url query max_pages
           = concat (map (\<lambda>j. page_text (be base_url query j)) [1..<k])
             @ text_before_failure (be base_url query k)"
    unfolding search_def
    using search_loop_prefix [OF assms(2) assms(4) assms(3) assms(1), of "[]"] by simp
  then show ?thesis
    by (simp add: fetch_failed_no_text)
qed

text \<open>
  The theorem at a timeout on page 2 of the sample backend, and at the entry that is no
  object on page 2 of the other backend, with the texts written out.
\<close>

theorem search_failure_isolation_witness:
  "(1::nat) \<le> 2 \<and> (2::nat) \<le> PAGES_PER_QUERY
   \<and> page_ok (sample_backend 0 ''http://localhost:8080'' ''contact acme.com'' 1)
   \<and> fetch_failed (sample_backend 0 ''http://localhost:8080'' ''contact acme.com'' 2)
   \<and> search (sample_backend 0) ''http://localhost:8080'' ''contact acme.com'' PAGES_PER_QUERY
       = ''Jane Doe'' @ [CHR 0x0A] @ ''Contact: jane.doe@ACME.com or x@hunter.io''
         @ [CHR 0x0A, CHR 0x0A] @ [CHR 0x0A] @ ''support@acme.com'' @ [CHR 0x0A, CHR 0x0A]
   \<and> page_ok (partial_backend ''http://localhost:8080'' ''contact acme.com'' 1)
   \<and> page_failed (partial_backend ''http://localhost:8080'' ''contact acme.com'' 2)
   \<and> search partial_backend ''http://localhost:8080'' ''contact acme.com'' PAGES_PER_QUERY
       = ''A'' @ [CHR 0x0A] @ ''a@acme.com'' @ [CHR 0x0A, CHR 0x0A]
         @ ''B'' @ [CHR 0x0A] @ [CHR 0x0A, CHR 0x0A]"
proof -
  have a: "(1::nat) \<le> 2" by simp
  have b: "(2::nat) \<le> PAGES_PER_QUERY" by (simp add: PAGES_PER_QUERY_def)
  have e: "[1..<2] = [1::nat]" by (simp add: upt_conv_Cons)
  have ok: "page_ok (sample_backend 0 ''http://localhost:8080'' ''contact acme.com'' 1)"
    by (simp add: sample_backend_def page_ok_def)
  have c: "\<forall>j. 1 \<le> j \<and> j < 2 \<longrightarrow>
             page_ok (sample_backend 0 ''http://localhost:8080'' ''contact acme.com'' j)"
    by (simp add: sample_backend_def page_ok_def)
  have f: "fetch_failed (sample_backend 0 ''http://localhost:8080'' ''contact acme.com'' 2)"
    by (simp add: sample_backend_def fetch_failed_def)
  have d: "page_failed (sample_backend 0 ''http://localhost:8080'' ''contact acme.com'' 2)"
    by (simp add: sample_backend_def page_failed_def)
  have ok': "page_ok (partial_backend ''http://localhost:8080'' ''contact acme.com'' 1)"
    by (simp add: partial_backend_def page_ok_def)
  have c': "\<forall>j. 1 \<le> j \<and> j < 2 \<longrightarrow>
              page_ok (partial_backend ''http://localhost:8080'' ''contact acme.com'' j)"
    by (simp add: partial_backend_def page_ok_def)
  have d': "page_failed (partial_backend ''http://localhost:8080'' ''contact acme.com'' 2)"
    by (simp add: partial_backend_def page_failed_def)
  have t1: "page_text (sample_backend 0 ''http://localhost:8080'' ''contact acme.com'' 1)
      = ''Jane Doe'' @ [CHR 0x0A] @ ''Contact: jane.doe@ACME.com or x@hunter.io''
         @ [CHR 0x0A, CHR 0x0A] @ [CHR 0x0A] @ ''support@acme.com'' @ [CHR 0x0A, CHR 0x0A]"
    by (simp add: sample_backend_def page_text_def)
  have t2: "page_text (partial_backend ''http://localhost:8080'' ''contact acme.com'' 1)
      = ''A'' @ [CHR 0x0A] @ ''a@acme.com'' @ [CHR 0x0A, CHR 0x0A]"
    by (simp add: partial_backend_def page_text_def)
  have t3: "text_before_failure (partial_backend ''http://localhost:8080'' ''contact acme.com'' 2)
      = ''B'' @ [CHR 0x0A] @ [CHR 0x0A, CHR 0x0A]"
    by (simp add: partial_backend_def text_before_failure_def)
  from search_failure_isolation
         [of 2 PAGES_PER_QUERY "sample_backend 0" "''http://localhost:8080''" "''contact acme.com''",
          OF a b c d] f
  have s1: "search (sample_backend 0) ''http://localhost:8080'' ''contact acme.com'' PAGES_PER_QUERY
       = concat (map (\<lambda>j. page_text (sample_backend 0 ''http://localhost:8080''
                                        ''contact acme.com'' j)) [1..<2])"
    by blast
  from search_failure_isolation
         [of 2 PAGES_PER_QUERY partial_backend "''http://localhost:8080''" "''contact acme.com''",
          OF a b c' d']
  have s2: "search partial_backend ''http://localhost:8080'' ''contact acme.com'' PAGES_PER_QUERY
       = concat (map (\<lambda>j. page_text (partial_backend ''http://localhost:8080''
                                        ''contact acme.com'' j)) [1..<2])
         @ text_before_failure (partial_backend ''http://localhost:8080'' ''contact acme.com'' 2)"
    by blast
  from a b ok f ok' d' s1 s2 show ?thesis
    unfolding e by (simp add: t1 [unfolded One_nat_def] t2 [unfolded One_nat_def] t3)
qed

text \<open>
  Claim C7 as stated fails for a response whose results hold an entry that is no object:
  the loop over page 2 has appended the hit \<open>B\<close> when \<open>result.get\<close> raises, the handler
  leaves the loop over the pages, and \<open>search\<close> returns more than the text of page 1.
\<close>

theorem partial_page_text_kept:
  "search partial_backend ''http://localhost:8080'' ''contact acme.com'' 2
     = ''A'' @ [CHR 0x0A] @ ''a@acme.com'' @ [CHR 0x0A, CHR 0x0A]
       @ ''B'' @ [CHR 0x0A] @ [CHR 0x0A, CHR 0x0A]
   \<and> search partial_backend ''http://localhost:8080'' ''contact acme.com'' 2
     \<noteq> ''A'' @ [CHR 0x0A] @ ''a@acme.com'' @ [CHR 0x0A, CHR 0x0A]"
  by code_simp

subsection \<open>C8: the permutation queries\<close>

text \<open>
  Claim C8 holds where the parts of the name and the domain hold no brace (and the
  domain no space): the five permutation templates are then their own queries,
  whatever the formatter does outside the model.
\<close>

lemma permutation_queries_literal:
  assumes n: "n \<noteq> []" and parts: "2 \<le> length (py_split_ws (py_lower n))"
    and d: "d \<noteq> []"
    and n_plain: "CHR ''{'' \<notin> set n" "CHR ''}'' \<notin> set n"
    and d_plain: "CHR ''{'' \<notin> set d" "CHR ''}'' \<notin> set d" "CHR '' '' \<notin> set d"
  defines "fname \<equiv> hd (py_split_ws (py_lower n))"
    and "lname \<equiv> last (py_split_ws (py_lower n))"
  shows "map (format_query ext (Some n) (Some d) name) (permutation_templates (Some n) (Some d))
         = map Inr [quoted (take 1 fname @ lname @ ''@'' @ d),
                    quoted (fname @ ''.'' @ lname @ ''@'' @ d),
                    quoted (fname @ lname @ ''@'' @ d),
                    quoted (lname @ ''.'' @ fname @ ''@'' @ d),
                    quoted (fname @ ''@'' @ d)]"
proof -
  have ne: "py_split_ws (py_lower n) \<noteq> []" using parts by auto
  have "fname \<in> set (py_split_ws (py_lower n))" "lname \<in> set (py_split_ws (py_lower n))"
    using ne by (simp_all add: fname_def lname_def)
  then have sub: "set fname \<subseteq> set (py_lower n)" "set lname \<subseteq> set (py_lower n)"
    and nosp: "\<forall>c\<in>set fname. \<not> is_space c" "\<forall>c\<in>set lname. \<not> is_space c"
    using py_split_ws_parts by blast+
  have sp: "is_space CHR '' ''" by (simp add: is_space_def)
  have low: "CHR ''{'' \<notin> set (py_lower n)" "CHR ''}'' \<notin> set (py_lower n)"
    using n_plain
    by (simp_all add: mem_py_lower_iff [OF lower_char_eq_iff] is_upper_def is_lower_def)
  have plain: "CHR ''{'' \<notin> set fname" "CHR ''}'' \<notin> set fname" "CHR '' '' \<notin> set fname"
    "CHR ''{'' \<notin> set lname" "CHR ''}'' \<notin> set lname" "CHR '' '' \<notin> set lname"
    using sub low nosp sp by auto
  have t1: "set (take 1 fname) \<subseteq> set fname" by (rule set_take_subset)
  have q: "format_query ext (Some n) (Some d) name (quoted s) = Inr (quoted s)"
    if "CHR ''{'' \<notin> set s" "CHR ''}'' \<notin> set s" "CHR '' '' \<notin> set s" for s
    using that by (intro format_query_plain) (simp_all add: quoted_def)
  show ?thesis
    using n d parts plain d_plain t1
    by (simp add: permutation_templates_def Let_def fname_def [symmetric] lname_def [symmetric])
       (intro conjI q; auto)
qed

lemma jane_doe_queries: \<open>
  map (format_query ext (Some ''Jane Doe'') (Some ''acme.com'') ''acme'')
      (query_templates (Some ''Jane Doe'') (Some ''acme.com''))
  = map Inr [''"Jane Doe" "acme.com" email'',
             ''"Jane Doe" email address acme.com'',
             ''contact "Jane Doe" acme.com'',
             ''"acme.com" email'',
             ''contact acme.com'',
             ''"jdoe@acme.com"'',
             ''"jane.doe@acme.com"'',
             ''"janedoe@acme.com"'',
             ''"doe.jane@acme.com"'',
             ''"jane@acme.com"'']\<close>
  by code_simp

text \<open>
  Claim C8 fails on the code for a name with braces. The permutation templates are
  f-strings, already literal, but the loop passes every template through \<open>format\<close>: for
  the contact name \<open>Jane {Doe}\<close> and the input \<open>acme.com\<close> the sixth template holds the
  field \<open>{doe}\<close>, \<open>format\<close> raises \<open>KeyError\<close>, nothing catches it, and the run ends
  without a result, whatever the backend and the endpoint are.
\<close>

theorem braces_in_name_raise:
  "find_emails_logic ext net ''acme.com'' (Some ''Jane {Doe}'') searx_url = Inl KeyError"
  unfolding find_emails_logic_def acme_domain
  by (simp add: run_queries_Inl [OF jane_brace_queries])

subsection \<open>C9: idempotence of the filter\<close>

text \<open>
  Claim C9. The filter is idempotent: applied to any enumeration \<open>ys\<close> of the set of
  elements of its own output, with the same target domain, it returns that output.
\<close>

theorem filter_idempotent:
  assumes "set ys = set (filter_blacklisted_emails xs target)"
  shows "filter_blacklisted_emails ys target = filter_blacklisted_emails xs target"
proof -
  let ?keep = "\<lambda>e. check_email (normalize_target target) e = Keep"
  have "{e \<in> set ys. ?keep e} = {e \<in> set xs. ?keep e}"
    using assms by (auto simp: set_filter_blacklisted)
  then show ?thesis
    by (simp only: filter_as_set)
qed

theorem filter_idempotent_witness:
  "set [''b@y.org'', ''a@x.org'']
     = set (filter_blacklisted_emails [''b@y.org'', ''q@gmail.com'', ''a@x.org'', ''b@y.org''] None)
   \<and> filter_blacklisted_emails [''b@y.org'', ''a@x.org''] None = [''a@x.org'', ''b@y.org'']
   \<and> filter_blacklisted_emails [''b@y.org'', ''q@gmail.com'', ''a@x.org'', ''b@y.org''] None
       = [''a@x.org'', ''b@y.org'']"
proof -
  have out: "filter_blacklisted_emails [''b@y.org'', ''q@gmail.com'', ''a@x.org'', ''b@y.org''] None
               = [''a@x.org'', ''b@y.org'']"
    by code_simp
  have h: "set [''b@y.org'', ''a@x.org'']
             = set (filter_blacklisted_emails
                      [''b@y.org'', ''q@gmail.com'', ''a@x.org'', ''b@y.org''] None)"
    unfolding out by auto
  from filter_idempotent [OF h] h out show ?thesis by simp
qed

subsection \<open>C10: extracted candidates hold exactly one at-sign\<close>

text \<open>
  Claim C10. Every string returned by \<open>extract_emails_from_text\<close> holds exactly one \<open>@\<close>:
  neither the local part nor the domain part of a match of the pattern can hold one,
  and lowercasing keeps the count. The filter therefore never takes its malformed
  branch on a candidate that comes from the extractor, whatever the target domain.
\<close>

theorem extracted_has_one_at:
  assumes "e \<in> set (extract_emails_from_text txt)"
  shows "count_list e CHR ''@'' = 1 \<and> check_email t e \<noteq> Malformed"
proof -
  from assms obtain m where "m \<in> set (findall txt)" and e: "e = py_lower m"
    by (auto simp: extract_emails_from_text_def split: if_splits)
  then obtain s' where "match_email s' = Some m"
    using findall_matches by blast
  then have "count_list m CHR ''@'' = 1" by (rule match_email_one_at)
  then have one: "count_list e CHR ''@'' = 1" by (simp add: e count_at_py_lower)
  then have "CHR ''@'' \<in> set e"
    by (metis count_notin zero_neq_one)
  then have "check_email t e \<noteq> Malformed"
    by (simp add: check_email_at)
  with one show ?thesis by simp
qed

theorem extracted_has_one_at_witness:
  "''jane.doe@acme.com'' \<in> set (extract_emails_from_text ''Contact: jane.doe@ACME.com or x@hunter.io'')
   \<and> count_list ''jane.doe@acme.com'' CHR ''@'' = 1
   \<and> check_email (Some ''acme.com'') ''jane.doe@acme.com'' \<noteq> Malformed"
proof -
  have h: "''jane.doe@acme.com'' \<in> set (extract_emails_from_text ''Contact: jane.doe@ACME.com or x@hunter.io'')"
    by code_simp
  from extracted_has_one_at [OF h, of "Some ''acme.com''"] h show ?thesis by simp
qed

end
